theory Spec2Isabelle
  imports Complex_Main
begin

section \<open>Navigation types: the navigation mode and the lidar scan message\<close>

text \<open>
  A shallow embedding of \<^verbatim>\<open>include/navigation/navigation_type.h\<close>.

  Conventions of the embedding.
  \<^item> A C++ \<^verbatim>\<open>float\<close> is a \<^typ>\<open>real\<close>: the samples are finite numbers (no NaN, no
    infinity). In the smoothing transform the arithmetic is that of the machine: the
    difference of two thetas is rounded to single precision (\<open>float_round\<close>, round to
    nearest, ties to even) and the window bound is the single-precision constant the
    source computes; \<^verbatim>\<open>fabs\<close> is \<^const>\<open>abs\<close> and \<^verbatim>\<open>fmin\<close> is \<^const>\<open>min\<close>, both exact.
    In the conversions between Cartesian and polar samples \<^verbatim>\<open>cosf\<close>, \<^verbatim>\<open>sinf\<close>,
    \<^verbatim>\<open>hypotf\<close>, \<^verbatim>\<open>atan2f\<close> and the products are the exact real functions.
  \<^item> A \<^verbatim>\<open>std::vector\<close> is a list; \<^verbatim>\<open>push_back\<close> appends at the end,
    \<^verbatim>\<open>clear\<close> gives \<open>[]\<close>.
  \<^item> The loop counters \<^verbatim>\<open>int i\<close>, \<^verbatim>\<open>int j\<close> are integers (\<^verbatim>\<open>j\<close> does reach
    \<open>-1\<close>); vectors are shorter than \<open>2^31\<close>, so the counters do not overflow.
  \<^item> A member function that changes the object takes the object and returns the new
    one; a getter that also changes the object returns the pair of the returned value
    and the new object.
\<close>

subsection \<open>NaviStatus\<close>

datatype NaviStatus =
  NORMAL | LOST | OBSTACLE_AVOID | STOP | STANDBY | MANUAL | LOST_RECOVERY

definition NaviStatusToString :: "NaviStatus \<Rightarrow> string" where
  "NaviStatusToString navi_status =
     (if navi_status = NORMAL then ''NORNAL''
      else if navi_status = LOST then ''LOST''
      else if navi_status = LOST_RECOVERY then ''LOST_RECOVERY''
      else if navi_status = OBSTACLE_AVOID then ''OBSTACLE_AVOID''
      else if navi_status = STOP then ''STOP''
      else if navi_status = STANDBY then ''STANDBY''
      else ''unknown'')"

text \<open>The name the enumeration itself gives to each mode (its enumerator).\<close>

fun enumerator_name :: "NaviStatus \<Rightarrow> string" where
  "enumerator_name NORMAL = ''NORMAL''"
| "enumerator_name LOST = ''LOST''"
| "enumerator_name OBSTACLE_AVOID = ''OBSTACLE_AVOID''"
| "enumerator_name STOP = ''STOP''"
| "enumerator_name STANDBY = ''STANDBY''"
| "enumerator_name MANUAL = ''MANUAL''"
| "enumerator_name LOST_RECOVERY = ''LOST_RECOVERY''"

subsection \<open>Samples\<close>

record radius_theta =
  radius :: real
  theta :: real

text \<open>The fields \<^verbatim>\<open>x\<close> and \<^verbatim>\<open>y\<close> of \<^verbatim>\<open>struct x_y\<close>, prefixed so that they do
  not capture the variables \<open>x\<close> and \<open>y\<close>.\<close>

record x_y =
  xy_x :: real
  xy_y :: real

subsection \<open>ScanMessage\<close>

text \<open>\<^verbatim>\<open>std::chrono::steady_clock::time_point\<close>: a tick count; a default-constructed
  time point is the epoch, \<open>0\<close>.\<close>

type_synonym time_point = int

record ScanMessage =
  tp :: time_point
  scan_xy :: "x_y list"
  scan_rt :: "radius_theta list"
  sorted_by_theta :: bool

text \<open>
  The six constructors. The first, \<^verbatim>\<open>ScanMessage() {}\<close>, has no initialiser for
  \<^verbatim>\<open>sorted_by_theta_\<close>: the member holds an indeterminate value, which the model takes
  as the parameter \<open>indeterminate\<close>. The other five initialise it to false.
\<close>

definition ScanMessage_default :: "bool \<Rightarrow> ScanMessage" where
  "ScanMessage_default indeterminate =
     \<lparr>tp = 0, scan_xy = [], scan_rt = [], sorted_by_theta = indeterminate\<rparr>"

definition ScanMessage_tp :: "time_point \<Rightarrow> ScanMessage" where
  "ScanMessage_tp input_tp =
     \<lparr>tp = input_tp, scan_xy = [], scan_rt = [], sorted_by_theta = False\<rparr>"

definition ScanMessage_xy :: "x_y list \<Rightarrow> ScanMessage" where
  "ScanMessage_xy input_scan_xy =
     \<lparr>tp = 0, scan_xy = input_scan_xy, scan_rt = [], sorted_by_theta = False\<rparr>"

definition ScanMessage_rt :: "radius_theta list \<Rightarrow> ScanMessage" where
  "ScanMessage_rt input_scan_rt =
     \<lparr>tp = 0, scan_xy = [], scan_rt = input_scan_rt, sorted_by_theta = False\<rparr>"

definition ScanMessage_xy_tp :: "x_y list \<Rightarrow> time_point \<Rightarrow> ScanMessage" where
  "ScanMessage_xy_tp input_scan_xy input_tp =
     \<lparr>tp = input_tp, scan_xy = input_scan_xy, scan_rt = [], sorted_by_theta = False\<rparr>"

definition ScanMessage_rt_tp :: "radius_theta list \<Rightarrow> time_point \<Rightarrow> ScanMessage" where
  "ScanMessage_rt_tp input_scan_rt input_tp =
     \<lparr>tp = input_tp, scan_xy = [], scan_rt = input_scan_rt, sorted_by_theta = False\<rparr>"

subsubsection \<open>Conversions\<close>

text \<open>\<^verbatim>\<open>atan2f\<close> of the C library is not part of the repository; here it is the
  angle in \<open>(-\<pi>, \<pi>]\<close> of the point \<open>(x, y)\<close>, and \<open>0\<close> at the origin. The reals have
  one zero: the results that the C function gives for a negative zero are not modelled.\<close>

definition atan2f :: "real \<Rightarrow> real \<Rightarrow> real" where
  "atan2f b a =
     (if 0 < a then arctan (b / a)
      else if a < 0 then (if 0 \<le> b then arctan (b / a) + pi else arctan (b / a) - pi)
      else if 0 < b then pi / 2
      else if b < 0 then - (pi / 2)
      else 0)"

definition hypotf :: "real \<Rightarrow> real \<Rightarrow> real" where
  "hypotf a b = sqrt (a * a + b * b)"

definition XYtoRT :: "x_y \<Rightarrow> radius_theta" where
  "XYtoRT xy = \<lparr>radius = hypotf (xy_x xy) (xy_y xy), theta = atan2f (xy_y xy) (xy_x xy)\<rparr>"

definition RTtoXY :: "radius_theta \<Rightarrow> x_y" where
  "RTtoXY rt = \<lparr>xy_x = radius rt * cos (theta rt), xy_y = radius rt * sin (theta rt)\<rparr>"

text \<open>The two vector conversions clear the output, return at once on an empty input, and
  otherwise push the converted samples back one by one, in the order of the input.\<close>

definition scanXYtoRT :: "x_y list \<Rightarrow> radius_theta list" where
  "scanXYtoRT input_scan_xy =
     (if input_scan_xy = [] then []
      else foldl (\<lambda>output_scan_rt xy. output_scan_rt @ [XYtoRT xy]) [] input_scan_xy)"

definition scanRTtoXY :: "radius_theta list \<Rightarrow> x_y list" where
  "scanRTtoXY input_scan_rt =
     (if input_scan_rt = [] then []
      else foldl (\<lambda>output_scan_xy rt. output_scan_xy @ [RTtoXY rt]) [] input_scan_rt)"

text \<open>\<^verbatim>\<open>std::sort\<close> with the comparator \<^verbatim>\<open>first.theta < second.theta\<close>. The order it
  gives to samples of equal theta is unspecified; the model sorts stably.\<close>

definition thetaAscendingSortScanRT :: "radius_theta list \<Rightarrow> radius_theta list" where
  "thetaAscendingSortScanRT scan = sort_key theta scan"

subsubsection \<open>The smallest radius within delta theta\<close>

text \<open>Rounding a real to single precision (IEEE 754 binary32, round to nearest, ties to
  even). A number of magnitude \<open>a\<close> in the binade \<open>2^e \<le> a < 2^(e+1)\<close> is rounded to a
  multiple of \<open>2^(e-23)\<close>; below \<open>2^(-126)\<close> the spacing stays \<open>2^(-149)\<close>. Overflow to
  infinity is left out: the result is only compared with \<open>delta_theta\<close>.\<close>

definition round_half_even :: "real \<Rightarrow> int" where
  "round_half_even y =
     (let f = \<lfloor>y\<rfloor>
      in if y - of_int f < 1 / 2 then f
         else if 1 / 2 < y - of_int f then f + 1
         else if even f then f else f + 1)"

definition float_magnitude :: "real \<Rightarrow> real" where
  "float_magnitude a =
     (let e = max \<lfloor>log 2 a\<rfloor> (- 126);
          ulp = 2 powr of_int (e - 23)
      in of_int (round_half_even (a / ulp)) * ulp)"

definition float_round :: "real \<Rightarrow> real" where
  "float_round x = sgn x * float_magnitude \<bar>x\<bar>"

text \<open>\<^verbatim>\<open>M_PI\<close> is the macro of the C library, \<^verbatim>\<open>3.14159265358979323846\<close>, read as a
  \<^verbatim>\<open>double\<close>: the binary64 number nearest to \<open>\<pi>\<close>.\<close>

definition M_PI :: real where
  "M_PI = 884279719003555 / 2 ^ 48"

text \<open>\<^verbatim>\<open>const float delta_theta = 0.5 * M_PI / 512;\<close> The product and the quotient are
  computed in double precision, exactly (they only change the exponent), and the result
  is rounded to \<^verbatim>\<open>float\<close> by the initialisation.\<close>

definition delta_theta :: real where
  "delta_theta = float_round (0.5 * M_PI / 512)"

text \<open>The first inner loop: \<open>j\<close> runs downwards from \<open>i\<close> while \<open>j \<ge> 0\<close>, and stops at
  the first sample of the copy whose theta is further than \<open>delta_theta\<close> from that of
  \<open>rt\<close>. \<open>rt\<close> is the sample being rewritten. The difference of the two \<^verbatim>\<open>float\<close>
  thetas is a \<^verbatim>\<open>float\<close>.\<close>

function scan_left :: "radius_theta list \<Rightarrow> int \<Rightarrow> radius_theta \<Rightarrow> radius_theta" where
  "scan_left scan_rt_copy j rt =
     (if 0 \<le> j then
        (if \<bar>float_round (theta (scan_rt_copy ! nat j) - theta rt)\<bar> > delta_theta then rt
         else scan_left scan_rt_copy (j - 1)
                (rt\<lparr>radius := min (radius rt) (radius (scan_rt_copy ! nat j))\<rparr>))
      else rt)"
  by pat_completeness auto
termination
  by (relation "measure (\<lambda>(c, j, rt). nat (j + 1))") auto

declare scan_left.simps [simp del]

text \<open>The second inner loop: \<open>j\<close> runs upwards from \<open>i\<close> while \<open>j < size\<close>. The
  comparison of the \<^verbatim>\<open>int\<close> counter with \<^verbatim>\<open>size()\<close> is unsigned: a negative counter
  would be read as a huge value and fail it, hence the conjunct \<open>0 \<le> j\<close>; so for the
  test \<open>i < size\<close> of the outer loop.\<close>

function scan_right :: "radius_theta list \<Rightarrow> int \<Rightarrow> radius_theta \<Rightarrow> radius_theta" where
  "scan_right scan_rt_copy j rt =
     (if 0 \<le> j \<and> j < int (length scan_rt_copy) then
        (if \<bar>float_round (theta (scan_rt_copy ! nat j) - theta rt)\<bar> > delta_theta then rt
         else scan_right scan_rt_copy (j + 1)
                (rt\<lparr>radius := min (radius rt) (radius (scan_rt_copy ! nat j))\<rparr>))
      else rt)"
  by pat_completeness auto
termination
  by (relation "measure (\<lambda>(c, j, rt). nat (int (length c) - j))") auto

declare scan_right.simps [simp del]

text \<open>The outer loop, from the counter \<open>i\<close> on: \<open>scan\<close> is the vector being rewritten,
  \<open>scan_rt_copy\<close> the copy taken before the loop. Both inner loops start at \<open>i\<close>. The
  loops read \<open>scan ! i\<close> and \<open>scan_rt_copy ! j\<close> only at indices below the common size.\<close>

function smallest_r_loop ::
  "radius_theta list \<Rightarrow> int \<Rightarrow> radius_theta list \<Rightarrow> radius_theta list" where
  "smallest_r_loop scan_rt_copy i scan =
     (if 0 \<le> i \<and> i < int (length scan_rt_copy) then
        smallest_r_loop scan_rt_copy (i + 1)
          (scan[nat i := scan_right scan_rt_copy i (scan_left scan_rt_copy i (scan ! nat i))])
      else scan)"
  by pat_completeness auto
termination
  by (relation "measure (\<lambda>(c, i, s). nat (int (length c) - i))") auto

declare smallest_r_loop.simps [simp del]

definition compute_smallest_r_within_delta_theta ::
  "radius_theta list \<Rightarrow> radius_theta list" where
  "compute_smallest_r_within_delta_theta scan = smallest_r_loop scan 0 scan"

subsubsection \<open>Getters and setters\<close>

definition getScanXY :: "ScanMessage \<Rightarrow> x_y list \<times> ScanMessage" where
  "getScanXY m =
     (let m1 = (if scan_xy m = [] \<and> scan_rt m \<noteq> []
                then m\<lparr>scan_xy := scanRTtoXY (scan_rt m)\<rparr> else m)
      in (scan_xy m1, m1))"

text \<open>The three statements of \<^verbatim>\<open>getScanRT\<close>, in the order of the source.\<close>

definition derive_rt_if_empty :: "ScanMessage \<Rightarrow> ScanMessage" where
  "derive_rt_if_empty m =
     (if scan_rt m = [] \<and> scan_xy m \<noteq> []
      then m\<lparr>scan_rt := scanXYtoRT (scan_xy m), sorted_by_theta := False\<rparr>
      else m)"

definition sort_if_needed :: "bool \<Rightarrow> ScanMessage \<Rightarrow> ScanMessage" where
  "sort_if_needed need_sort m =
     (if need_sort \<and> \<not> sorted_by_theta m
      then m\<lparr>scan_rt := thetaAscendingSortScanRT (scan_rt m), sorted_by_theta := True\<rparr>
      else m)"

definition smooth_in_place :: "ScanMessage \<Rightarrow> ScanMessage" where
  "smooth_in_place m = m\<lparr>scan_rt := compute_smallest_r_within_delta_theta (scan_rt m)\<rparr>"

definition getScanRT :: "bool \<Rightarrow> ScanMessage \<Rightarrow> radius_theta list \<times> ScanMessage" where
  "getScanRT need_sort m =
     (let m3 = smooth_in_place (sort_if_needed need_sort (derive_rt_if_empty m))
      in (scan_rt m3, m3))"

definition setScanXY :: "x_y list \<Rightarrow> ScanMessage \<Rightarrow> ScanMessage" where
  "setScanXY input_scan_xy m =
     (let m1 = m\<lparr>scan_xy := input_scan_xy\<rparr>
      in if scan_rt m1 \<noteq> [] then m1\<lparr>scan_rt := []\<rparr> else m1)"

definition setScanRT :: "radius_theta list \<Rightarrow> bool \<Rightarrow> ScanMessage \<Rightarrow> ScanMessage" where
  "setScanRT input_scan_rt is_sorted m =
     (let m1 = m\<lparr>scan_rt := input_scan_rt\<rparr>;
          m2 = (if scan_xy m1 \<noteq> [] then m1\<lparr>scan_xy := []\<rparr> else m1)
      in m2\<lparr>sorted_by_theta := is_sorted\<rparr>)"

definition scan_clear :: "ScanMessage \<Rightarrow> ScanMessage" where
  "scan_clear m = m\<lparr>scan_xy := [], scan_rt := [], sorted_by_theta := False\<rparr>"

definition scan_xy_push_back :: "x_y \<Rightarrow> ScanMessage \<Rightarrow> ScanMessage" where
  "scan_xy_push_back xy m =
     (let m1 = m\<lparr>scan_xy := scan_xy m @ [xy]\<rparr>;
          m2 = (if scan_rt m1 \<noteq> [] then m1\<lparr>scan_rt := []\<rparr> else m1)
      in m2\<lparr>sorted_by_theta := False\<rparr>)"

definition scan_rt_push_back :: "radius_theta \<Rightarrow> bool \<Rightarrow> ScanMessage \<Rightarrow> ScanMessage" where
  "scan_rt_push_back rt in_order m =
     (let m1 = m\<lparr>scan_rt := scan_rt m @ [rt]\<rparr>;
          m2 = (if scan_xy m1 \<noteq> [] then m1\<lparr>scan_xy := []\<rparr> else m1)
      in m2\<lparr>sorted_by_theta := in_order\<rparr>)"

subsection \<open>Predicates of the specification\<close>

text \<open>Invariant I1 in the words of the specification: exactly one of the two backing
  sequences is non-empty, or both are empty.\<close>

definition exactly_one_or_none_populated :: "ScanMessage \<Rightarrow> bool" where
  "exactly_one_or_none_populated m \<longleftrightarrow>
     (scan_xy m \<noteq> [] \<and> scan_rt m = []) \<or>
     (scan_xy m = [] \<and> scan_rt m \<noteq> []) \<or>
     (scan_xy m = [] \<and> scan_rt m = [])"

text \<open>
  The smoothing window in the words of the specification. From sample \<open>i\<close>, whose theta
  is \<open>th\<close>, the leftward run holds the indices \<open>j \<le> i\<close> reached through descending
  indices while every sample met is within \<open>delta_theta\<close> of \<open>th\<close>; the rightward run
  holds the indices \<open>j \<ge> i\<close> reached likewise through ascending indices. The window of
  \<open>i\<close> is the contiguous run made of both. Here the distance of two thetas and the bound
  are those of the machine: the single-precision difference and the single-precision
  constant.
\<close>

definition left_run :: "radius_theta list \<Rightarrow> real \<Rightarrow> nat \<Rightarrow> nat set" where
  "left_run c th i = {j \<in> {0..i}. \<forall>k \<in> {j..i}. \<bar>float_round (theta (c ! k) - th)\<bar> \<le> delta_theta}"

definition right_run :: "radius_theta list \<Rightarrow> real \<Rightarrow> nat \<Rightarrow> nat set" where
  "right_run c th i =
     {j \<in> {i..<length c}. \<forall>k \<in> {i..j}. \<bar>float_round (theta (c ! k) - th)\<bar> \<le> delta_theta}"

definition window_run :: "radius_theta list \<Rightarrow> nat \<Rightarrow> nat set" where
  "window_run s i = left_run s (theta (s ! i)) i \<union> right_run s (theta (s ! i)) i"

text \<open>
  The same window with the distance and the bound read as real numbers, as the claim
  words them: the exact difference of the thetas, at most \<open>(\<pi>/2)/512\<close>.
\<close>

definition claimed_left_run :: "radius_theta list \<Rightarrow> real \<Rightarrow> nat \<Rightarrow> nat set" where
  "claimed_left_run c th i =
     {j \<in> {0..i}. \<forall>k \<in> {j..i}. \<bar>theta (c ! k) - th\<bar> \<le> (pi / 2) / 512}"

definition claimed_right_run :: "radius_theta list \<Rightarrow> real \<Rightarrow> nat \<Rightarrow> nat set" where
  "claimed_right_run c th i =
     {j \<in> {i..<length c}. \<forall>k \<in> {i..j}. \<bar>theta (c ! k) - th\<bar> \<le> (pi / 2) / 512}"

definition claimed_window_run :: "radius_theta list \<Rightarrow> nat \<Rightarrow> nat set" where
  "claimed_window_run s i =
     claimed_left_run s (theta (s ! i)) i \<union> claimed_right_run s (theta (s ! i)) i"

text \<open>Two samples whose thetas, both single-precision numbers, are exactly the
  single-precision bound apart.\<close>

definition float_bound_example :: "radius_theta list" where
  "float_bound_example =
     [\<lparr>radius = 5, theta = 0\<rparr>, \<lparr>radius = 1, theta = 13176795 / 2 ^ 32\<rparr>]"

text \<open>The three samples of the window-boundary test of the specification.\<close>

definition window_boundary_example :: "radius_theta list" where
  "window_boundary_example =
     [\<lparr>radius = 5, theta = 0\<rparr>,
      \<lparr>radius = 1, theta = delta_theta / 2\<rparr>,
      \<lparr>radius = 5, theta = 2 * delta_theta\<rparr>]"

text \<open>The indices reached from a set of indices by one more pass: the union of their
  windows.\<close>

definition spread :: "radius_theta list \<Rightarrow> nat set \<Rightarrow> nat set" where
  "spread s S = (\<Union>j\<in>S. window_run s j)"

text \<open>Two samples in descending order of theta, further apart than \<open>delta_theta\<close>.\<close>

definition unsorted_pair :: "radius_theta list" where
  "unsorted_pair = [\<lparr>radius = 1, theta = 4 * delta_theta\<rparr>, \<lparr>radius = 2, theta = 0\<rparr>]"

text \<open>Three samples, sorted, each exactly \<open>delta_theta\<close> from the next; the small radius
  is at the end.\<close>

definition resmoothing_example :: "radius_theta list" where
  "resmoothing_example =
     [\<lparr>radius = 5, theta = 0\<rparr>,
      \<lparr>radius = 5, theta = delta_theta\<rparr>,
      \<lparr>radius = 1, theta = 2 * delta_theta\<rparr>]"

section \<open>Properties\<close>

subsection \<open>The navigation mode\<close>

lemma NaviStatusToString_mapped:
  "NaviStatusToString LOST = enumerator_name LOST"
  "NaviStatusToString OBSTACLE_AVOID = enumerator_name OBSTACLE_AVOID"
  "NaviStatusToString STOP = enumerator_name STOP"
  "NaviStatusToString STANDBY = enumerator_name STANDBY"
  "NaviStatusToString LOST_RECOVERY = enumerator_name LOST_RECOVERY"
  by (simp_all add: NaviStatusToString_def)

text \<open>
  C8. The lookup is claimed to return the name of each of the seven modes and never the
  fallback. The chain of comparisons has no branch for \<open>MANUAL\<close>: that mode falls through
  to \<open>''unknown''\<close>. (The branch of \<open>NORMAL\<close> returns the misspelt \<open>''NORNAL''\<close>.)
\<close>

theorem NaviStatusToString_MANUAL_unknown:
  "NaviStatusToString MANUAL = ''unknown'' \<and>
   NaviStatusToString MANUAL \<noteq> enumerator_name MANUAL \<and>
   NaviStatusToString NORMAL = ''NORNAL''"
  by (simp add: NaviStatusToString_def)

subsection \<open>Writing a frame\<close>

lemma setScanXY_fields:
  "scan_xy (setScanXY xs m) = xs" "scan_rt (setScanXY xs m) = []"
  by (simp_all add: setScanXY_def Let_def)

lemma setScanRT_fields:
  "scan_rt (setScanRT rs b m) = rs" "scan_xy (setScanRT rs b m) = []"
  "sorted_by_theta (setScanRT rs b m) = b"
  by (simp_all add: setScanRT_def Let_def)

lemma scan_xy_push_back_fields:
  "scan_xy (scan_xy_push_back xy m) = scan_xy m @ [xy]"
  "scan_rt (scan_xy_push_back xy m) = []"
  "sorted_by_theta (scan_xy_push_back xy m) = False"
  by (simp_all add: scan_xy_push_back_def Let_def)

lemma scan_rt_push_back_fields:
  "scan_rt (scan_rt_push_back rt b m) = scan_rt m @ [rt]"
  "scan_xy (scan_rt_push_back rt b m) = []"
  "sorted_by_theta (scan_rt_push_back rt b m) = b"
  by (simp_all add: scan_rt_push_back_def Let_def)

text \<open>
  C2. After \<open>setScanXY\<close>, \<open>setScanRT\<close>, \<open>scan_xy_push_back\<close> or \<open>scan_rt_push_back\<close>, on
  any frame and with any argument, exactly one of the two backing sequences is non-empty
  or both are empty: each of the four clears the sequence it does not write.
\<close>

theorem write_keeps_one_representation:
  "exactly_one_or_none_populated (setScanXY xs m) \<and>
   exactly_one_or_none_populated (setScanRT rs b m) \<and>
   exactly_one_or_none_populated (scan_xy_push_back xy m) \<and>
   exactly_one_or_none_populated (scan_rt_push_back rt b m)"
  by (simp add: exactly_one_or_none_populated_def setScanXY_fields setScanRT_fields
      scan_xy_push_back_fields scan_rt_push_back_fields)

theorem write_keeps_one_representation_witness:
  "exactly_one_or_none_populated
     (setScanXY [\<lparr>xy_x = 1, xy_y = 2\<rparr>] (ScanMessage_rt [\<lparr>radius = 1, theta = 0\<rparr>])) \<and>
   exactly_one_or_none_populated
     (setScanRT [\<lparr>radius = 1, theta = 0\<rparr>] True (ScanMessage_xy [\<lparr>xy_x = 1, xy_y = 2\<rparr>])) \<and>
   exactly_one_or_none_populated
     (scan_xy_push_back \<lparr>xy_x = 1, xy_y = 2\<rparr> (ScanMessage_rt [\<lparr>radius = 1, theta = 0\<rparr>])) \<and>
   exactly_one_or_none_populated
     (scan_rt_push_back \<lparr>radius = 1, theta = 0\<rparr> False (ScanMessage_xy [\<lparr>xy_x = 1, xy_y = 2\<rparr>]))"
  using write_keeps_one_representation
    [of "[\<lparr>xy_x = 1, xy_y = 2\<rparr>]" "ScanMessage_rt [\<lparr>radius = 1, theta = 0\<rparr>]"
        "[\<lparr>radius = 1, theta = 0\<rparr>]" True "\<lparr>xy_x = 1, xy_y = 2\<rparr>" "\<lparr>radius = 1, theta = 0\<rparr>"]
    write_keeps_one_representation
    [of "[]" "ScanMessage_xy [\<lparr>xy_x = 1, xy_y = 2\<rparr>]"
        "[\<lparr>radius = 1, theta = 0\<rparr>]" True "\<lparr>xy_x = 1, xy_y = 2\<rparr>" "\<lparr>radius = 1, theta = 0\<rparr>"]
  by (simp add: exactly_one_or_none_populated_def setScanXY_fields setScanRT_fields
      scan_xy_push_back_fields scan_rt_push_back_fields)

subsection \<open>The Cartesian view\<close>

lemma foldl_push_back: "foldl (\<lambda>out a. out @ [f a]) acc xs = acc @ map f xs"
  by (induction xs arbitrary: acc) simp_all


lemma scanXYtoRT_map: "scanXYtoRT xs = map XYtoRT xs"
  by (simp add: scanXYtoRT_def foldl_push_back)



subsection \<open>A frame that was never populated\<close>

lemma compute_smallest_r_Nil [simp]: "compute_smallest_r_within_delta_theta [] = []"
  by (simp add: compute_smallest_r_within_delta_theta_def smallest_r_loop.simps)

lemma getScanXY_both_empty:
  "scan_xy m = [] \<Longrightarrow> scan_rt m = [] \<Longrightarrow> getScanXY m = ([], m)"
  by (simp add: getScanXY_def)

lemma getScanRT_both_empty:
  "scan_xy m = [] \<Longrightarrow> scan_rt m = [] \<Longrightarrow>
   fst (getScanRT need_sort m) = [] \<and>
   scan_xy (snd (getScanRT need_sort m)) = [] \<and>
   scan_rt (snd (getScanRT need_sort m)) = []"
  by (simp add: getScanRT_def derive_rt_if_empty_def sort_if_needed_def smooth_in_place_def
      thetaAscendingSortScanRT_def)

text \<open>
  C9. On a frame that has just been constructed and never populated (by the constructor
  without arguments, whatever its uninitialised flag holds, by the constructor that takes
  a time point only, or by one of the four constructors given an empty vector),
  \<open>getScanXY\<close> and \<open>getScanRT\<close>, with either value of \<open>need_sort\<close>, return the empty
  sequence and leave both backing sequences empty. The code has no error path; on an empty frame no loop
  body runs, so no element is read.
\<close>

theorem getters_on_empty_frame:
  "getScanXY (ScanMessage_default u) = ([], ScanMessage_default u) \<and>
   getScanXY (ScanMessage_tp t) = ([], ScanMessage_tp t) \<and>
   getScanXY (ScanMessage_xy []) = ([], ScanMessage_xy []) \<and>
   getScanXY (ScanMessage_rt []) = ([], ScanMessage_rt []) \<and>
   getScanXY (ScanMessage_xy_tp [] t) = ([], ScanMessage_xy_tp [] t) \<and>
   getScanXY (ScanMessage_rt_tp [] t) = ([], ScanMessage_rt_tp [] t) \<and>
   fst (getScanRT need_sort (ScanMessage_default u)) = [] \<and>
   scan_xy (snd (getScanRT need_sort (ScanMessage_default u))) = [] \<and>
   scan_rt (snd (getScanRT need_sort (ScanMessage_default u))) = [] \<and>
   fst (getScanRT need_sort (ScanMessage_tp t)) = [] \<and>
   scan_xy (snd (getScanRT need_sort (ScanMessage_tp t))) = [] \<and>
   scan_rt (snd (getScanRT need_sort (ScanMessage_tp t))) = [] \<and>
   fst (getScanRT need_sort (ScanMessage_xy [])) = [] \<and>
   scan_xy (snd (getScanRT need_sort (ScanMessage_xy []))) = [] \<and>
   scan_rt (snd (getScanRT need_sort (ScanMessage_xy []))) = [] \<and>
   fst (getScanRT need_sort (ScanMessage_rt [])) = [] \<and>
   scan_xy (snd (getScanRT need_sort (ScanMessage_rt []))) = [] \<and>
   scan_rt (snd (getScanRT need_sort (ScanMessage_rt []))) = [] \<and>
   fst (getScanRT need_sort (ScanMessage_xy_tp [] t)) = [] \<and>
   scan_xy (snd (getScanRT need_sort (ScanMessage_xy_tp [] t))) = [] \<and>
   scan_rt (snd (getScanRT need_sort (ScanMessage_xy_tp [] t))) = [] \<and>
   fst (getScanRT need_sort (ScanMessage_rt_tp [] t)) = [] \<and>
   scan_xy (snd (getScanRT need_sort (ScanMessage_rt_tp [] t))) = [] \<and>
   scan_rt (snd (getScanRT need_sort (ScanMessage_rt_tp [] t))) = []"
proof -
  have e: "scan_xy (ScanMessage_default u) = []" "scan_rt (ScanMessage_default u) = []"
    "scan_xy (ScanMessage_tp t) = []" "scan_rt (ScanMessage_tp t) = []"
    "scan_xy (ScanMessage_xy []) = []" "scan_rt (ScanMessage_xy []) = []"
    "scan_xy (ScanMessage_rt []) = []" "scan_rt (ScanMessage_rt []) = []"
    "scan_xy (ScanMessage_xy_tp [] t) = []" "scan_rt (ScanMessage_xy_tp [] t) = []"
    "scan_xy (ScanMessage_rt_tp [] t) = []" "scan_rt (ScanMessage_rt_tp [] t) = []"
    by (simp_all add: ScanMessage_default_def ScanMessage_tp_def ScanMessage_xy_def
        ScanMessage_rt_def ScanMessage_xy_tp_def ScanMessage_rt_tp_def)
  show ?thesis
    using e by (simp add: getScanXY_both_empty getScanRT_both_empty)
qed

subsection \<open>The sort-state flag after construction\<close>

text \<open>
  C10. Every constructor is claimed to set the sort-state flag to false. The five
  constructors with arguments do; \<^verbatim>\<open>ScanMessage() {}\<close> has no initialiser for the flag,
  which keeps whatever the storage held. With the value \<open>True\<close> there, the flag of the new
  frame is not false, and a first \<open>getScanRT\<close> that does not ask for sorting leaves a
  flag that depends on that value.
\<close>

theorem default_constructor_leaves_flag:
  "sorted_by_theta (ScanMessage_default True) \<noteq> False \<and>
   sorted_by_theta (snd (getScanRT False (ScanMessage_default True))) \<noteq>
   sorted_by_theta (snd (getScanRT False (ScanMessage_default False))) \<and>
   sorted_by_theta (ScanMessage_tp t) = False \<and>
   sorted_by_theta (ScanMessage_xy xs) = False \<and>
   sorted_by_theta (ScanMessage_rt rs) = False \<and>
   sorted_by_theta (ScanMessage_xy_tp xs t) = False \<and>
   sorted_by_theta (ScanMessage_rt_tp rs t) = False"
  by (simp add: ScanMessage_default_def ScanMessage_tp_def ScanMessage_xy_def
      ScanMessage_rt_def ScanMessage_xy_tp_def ScanMessage_rt_tp_def getScanRT_def
      derive_rt_if_empty_def sort_if_needed_def smooth_in_place_def)

subsection \<open>Single-precision rounding and the window bound\<close>

lemma round_half_even_cases:
  "round_half_even y = \<lfloor>y\<rfloor> \<or> round_half_even y = \<lfloor>y\<rfloor> + 1"
  by (simp add: round_half_even_def Let_def)

lemma round_half_even_of_int [simp]: "round_half_even (of_int n) = n"
  by (simp add: round_half_even_def)

lemma round_half_even_ge:
  assumes "of_int n \<le> y"
  shows "n \<le> round_half_even y"
proof -
  have "n \<le> \<lfloor>y\<rfloor>"
    using assms by (simp add: le_floor_iff)
  then show ?thesis
    using round_half_even_cases [of y] by auto
qed

lemma round_half_even_le:
  assumes "y \<le> of_int n"
  shows "round_half_even y \<le> n"
proof (cases "y = of_int n")
  case True
  then show ?thesis by simp
next
  case False
  then have "y < of_int n" using assms by simp
  then have "\<lfloor>y\<rfloor> < n" by (simp add: floor_less_iff)
  then show ?thesis
    using round_half_even_cases [of y] by auto
qed

lemma round_half_even_unique:
  assumes "of_int n - 1 / 2 < y" and "y < of_int n + 1 / 2"
  shows "round_half_even y = n"
proof (cases "of_int n \<le> y")
  case True
  then have "\<lfloor>y\<rfloor> = n"
    using assms(2) by (intro floor_unique) auto
  then show ?thesis
    using assms(2) by (simp add: round_half_even_def)
next
  case False
  then have f: "\<lfloor>y\<rfloor> = n - 1"
    using assms(1) by (intro floor_unique) auto
  have "1 / 2 < y - of_int (n - 1)"
    using assms(1) by simp
  then show ?thesis
    by (simp add: round_half_even_def f)
qed

lemma round_half_even_gt_odd:
  assumes "odd n"
  shows "n < round_half_even y \<longleftrightarrow> of_int n + 1 / 2 \<le> y"
proof
  assume y: "of_int n + 1 / 2 \<le> y"
  show "n < round_half_even y"
  proof (cases "of_int (n + 1) \<le> y")
    case True
    then have "n + 1 \<le> round_half_even y" by (rule round_half_even_ge)
    then show ?thesis by simp
  next
    case False
    then have f: "\<lfloor>y\<rfloor> = n"
      using y by (intro floor_unique) auto
    show ?thesis
      using y assms by (simp add: round_half_even_def f)
  qed
next
  assume r: "n < round_half_even y"
  show "of_int n + 1 / 2 \<le> y"
  proof (rule ccontr)
    assume "\<not> of_int n + 1 / 2 \<le> y"
    then have y: "y < of_int n + 1 / 2" by simp
    have "round_half_even y \<le> n"
    proof (cases "of_int n \<le> y")
      case True
      then have f: "\<lfloor>y\<rfloor> = n"
        using y by (intro floor_unique) auto
      show ?thesis using y by (simp add: round_half_even_def f)
    next
      case False
      then show ?thesis by (intro round_half_even_le) simp
    qed
    then show False using r by simp
  qed
qed

lemma two_powr_values:
  "2 powr (- 9) = (1 / 512 :: real)"
  "2 powr (- 8) = (1 / 256 :: real)"
  "2 powr (- 32) = (1 / 2 ^ 32 :: real)"
  "2 powr 24 = (2 ^ 24 :: real)"
  "2 powr 23 = (2 ^ 23 :: real)"
  by (simp_all add: powr_minus)

lemma floor_log2_bounds:
  assumes "0 < a"
  shows "2 powr of_int \<lfloor>log 2 a\<rfloor> \<le> a" and "a < 2 powr (of_int \<lfloor>log 2 a\<rfloor> + 1)"
  using assms floor_log_eq_powr_iff [of a 2 "\<lfloor>log 2 a\<rfloor>"] by simp_all

lemma float_magnitude_binade:
  assumes "1 / 512 \<le> a" and "a < 1 / 256"
  shows "float_magnitude a = of_int (round_half_even (a * 2 ^ 32)) / 2 ^ 32"
proof -
  have "0 < a" using assms(1) by simp
  moreover have "2 powr of_int (- 9) \<le> a \<and> a < 2 powr of_int (- 9 + 1)"
    using assms by (simp add: two_powr_values)
  ultimately have "\<lfloor>log 2 a\<rfloor> = - 9"
    by (subst floor_log_eq_powr_iff) simp_all
  then show ?thesis
    by (simp add: float_magnitude_def Let_def two_powr_values)
qed

lemma float_magnitude_small:
  assumes "0 < a" and "a < 1 / 512"
  shows "float_magnitude a \<le> 1 / 512"
proof -
  define e0 where "e0 = \<lfloor>log 2 a\<rfloor>"
  define e where "e = max e0 (- 126)"
  define u :: real where "u = 2 powr (of_int e - 23)"
  have b: "2 powr of_int e0 \<le> a" "a < 2 powr (of_int e0 + 1)"
    using floor_log2_bounds [OF assms(1)] by (simp_all add: e0_def)
  have "2 powr of_int e0 < (2::real) powr (- 9)"
    using b(1) assms(2) by (simp add: two_powr_values)
  then have "real_of_int e0 < - 9"
    by simp
  then have e: "e0 \<le> e" "e + 1 \<le> - 9"
    by (simp_all add: e_def)
  have pos: "0 < u"
    by (simp add: u_def)
  have top: "2 powr (of_int e + 1) = 2 powr 24 * u"
  proof -
    have "real_of_int e + 1 = 24 + (of_int e - 23)"
      by simp
    then have "(2::real) powr (of_int e + 1) = 2 powr (24 + (of_int e - 23))"
      by (rule arg_cong)
    also have "\<dots> = 2 powr 24 * 2 powr (of_int e - 23)"
      by (rule powr_add)
    finally show ?thesis
      by (simp only: u_def)
  qed
  have "a < 2 powr (of_int e + 1)"
    using b(2) e(1) by (smt (verit) powr_mono of_int_le_iff)
  then have "a / u \<le> of_int 16777216"
    using pos by (simp add: top two_powr_values pos_divide_le_eq)
  then have "round_half_even (a / u) \<le> 16777216"
    by (rule round_half_even_le)
  then have "of_int (round_half_even (a / u)) \<le> (2 powr 24 :: real)"
    by (simp add: two_powr_values)
  then have "of_int (round_half_even (a / u)) * u \<le> 2 powr 24 * u"
    using pos by (intro mult_right_mono) simp_all
  also have "\<dots> \<le> 2 powr (- 9)"
    unfolding top [symmetric] using e(2) by (intro powr_mono) simp_all
  finally show ?thesis
    by (simp add: float_magnitude_def Let_def u_def e_def e0_def two_powr_values)
qed

lemma float_magnitude_large:
  assumes "1 / 256 \<le> a"
  shows "1 / 256 \<le> float_magnitude a"
proof -
  define e0 where "e0 = \<lfloor>log 2 a\<rfloor>"
  define u :: real where "u = 2 powr (of_int e0 - 23)"
  have a: "0 < a" using assms by simp
  have b: "2 powr of_int e0 \<le> a" "a < 2 powr (of_int e0 + 1)"
    using floor_log2_bounds [OF a] by (simp_all add: e0_def)
  have "(2::real) powr (- 8) < 2 powr (of_int e0 + 1)"
    using b(2) assms by (simp add: two_powr_values)
  then have "- 8 < real_of_int e0 + 1"
    by simp
  then have e: "- 8 \<le> e0"
    by linarith
  then have m: "max e0 (- 126) = e0"
    by simp
  have pos: "0 < u"
    by (simp add: u_def)
  have bot: "2 powr of_int e0 = 2 powr 23 * u"
  proof -
    have "real_of_int e0 = 23 + (of_int e0 - 23)"
      by simp
    then have "(2::real) powr of_int e0 = 2 powr (23 + (of_int e0 - 23))"
      by (rule arg_cong)
    also have "\<dots> = 2 powr 23 * 2 powr (of_int e0 - 23)"
      by (rule powr_add)
    finally show ?thesis
      by (simp only: u_def)
  qed
  have "of_int 8388608 \<le> a / u"
    using b(1) pos by (simp add: bot two_powr_values pos_le_divide_eq)
  then have "8388608 \<le> round_half_even (a / u)"
    by (rule round_half_even_ge)
  then have "(2 powr 23 :: real) \<le> of_int (round_half_even (a / u))"
    by (simp add: two_powr_values)
  then have r: "2 powr 23 * u \<le> of_int (round_half_even (a / u)) * u"
    using pos by (intro mult_right_mono) simp_all
  have "1 / 256 = (2::real) powr (- 8)"
    by (simp only: two_powr_values)
  also have "\<dots> \<le> 2 powr of_int e0"
    using e by (intro powr_mono) simp_all
  also have "\<dots> = 2 powr 23 * u"
    by (rule bot)
  also note r
  finally have "1 / 256 \<le> of_int (round_half_even (a / u)) * u" .
  then show ?thesis
    by (simp add: float_magnitude_def Let_def u_def e0_def [symmetric] m)
qed

lemma delta_theta_eq: "delta_theta = 13176795 / 2 ^ 32"
proof -
  have "round_half_even (884279719003555 / 2 ^ 58 * 2 ^ 32) = 13176795"
    by (rule round_half_even_unique) simp_all
  then show ?thesis
    by (simp add: delta_theta_def float_round_def M_PI_def float_magnitude_binade)
qed

lemma float_round_0 [simp]: "float_round 0 = 0"
  by (simp add: float_round_def)

lemma abs_float_round: "\<bar>float_round x\<bar> = (if x = 0 then 0 else \<bar>float_magnitude \<bar>x\<bar>\<bar>)"
  by (simp add: float_round_def abs_mult)

lemma delta_theta_less_abs_float_round:
  "delta_theta < \<bar>float_round x\<bar> \<longleftrightarrow> 26353591 / 2 ^ 33 \<le> \<bar>x\<bar>"
proof (cases "x = 0")
  case True
  then show ?thesis by (simp add: delta_theta_eq)
next
  case False
  define a where "a = \<bar>x\<bar>"
  have a: "0 < a" using False by (simp add: a_def)
  consider "a < 1 / 512" | "1 / 512 \<le> a" "a < 1 / 256" | "1 / 256 \<le> a"
    by linarith
  then have "delta_theta < \<bar>float_magnitude a\<bar> \<longleftrightarrow> 26353591 / 2 ^ 33 \<le> a"
  proof cases
    case 1
    have "0 \<le> float_magnitude a"
      using a by (simp add: float_magnitude_def Let_def round_half_even_ge)
    then show ?thesis
      using float_magnitude_small [OF a 1] 1 by (simp add: delta_theta_eq)
  next
    case 2
    have o: "odd (13176795 :: int)" by simp
    have "13176795 < round_half_even (a * 2 ^ 32) \<longleftrightarrow> 26353591 / 2 ^ 33 \<le> a"
      unfolding round_half_even_gt_odd [OF o] by (simp add: field_simps)
    moreover have "0 \<le> round_half_even (a * 2 ^ 32)"
      using a by (intro round_half_even_ge) simp
    ultimately show ?thesis
      by (simp add: float_magnitude_binade [OF 2] delta_theta_eq field_simps)
  next
    case 3
    then show ?thesis
      using float_magnitude_large [OF 3] by (simp add: delta_theta_eq)
  qed
  then show ?thesis
    using False by (simp add: abs_float_round a_def)
qed

lemma arctan_upper_9:
  assumes "0 \<le> x"
  shows "arctan x \<le> x - x ^ 3 / 3 + x ^ 5 / 5 - x ^ 7 / 7 + x ^ 9 / 9"
proof -
  define f :: "real \<Rightarrow> real"
    where "f = (\<lambda>t. t - t ^ 3 / 3 + t ^ 5 / 5 - t ^ 7 / 7 + t ^ 9 / 9 - arctan t)"
  have d: "\<exists>y. (f has_real_derivative y) (at t) \<and> 0 \<le> y" for t
  proof (intro exI conjI)
    show "(f has_real_derivative (1 - t ^ 2 + t ^ 4 - t ^ 6 + t ^ 8 - inverse (1 + t\<^sup>2))) (at t)"
      unfolding f_def by (auto intro!: derivative_eq_intros)
    have p: "0 < 1 + t\<^sup>2"
      by (simp add: add_pos_nonneg)
    have "(1 - t ^ 2 + t ^ 4 - t ^ 6 + t ^ 8) * (1 + t\<^sup>2) = 1 + t ^ 10"
      by algebra
    then have "1 - t ^ 2 + t ^ 4 - t ^ 6 + t ^ 8 = (1 + t ^ 10) / (1 + t\<^sup>2)"
      using p by (simp add: eq_divide_eq)
    then have "1 - t ^ 2 + t ^ 4 - t ^ 6 + t ^ 8 - inverse (1 + t\<^sup>2) = t ^ 10 / (1 + t\<^sup>2)"
      by (simp add: inverse_eq_divide add_divide_distrib)
    then show "0 \<le> 1 - t ^ 2 + t ^ 4 - t ^ 6 + t ^ 8 - inverse (1 + t\<^sup>2)"
      by (simp add: add_pos_nonneg)
  qed
  have "f 0 \<le> f x"
    by (rule DERIV_nonneg_imp_nondecreasing [OF assms d])
  then show ?thesis
    by (simp add: f_def)
qed

lemma arctan_lower_3:
  assumes "0 \<le> x"
  shows "x - x ^ 3 / 3 \<le> arctan x"
proof -
  define f :: "real \<Rightarrow> real" where "f = (\<lambda>t. arctan t - t + t ^ 3 / 3)"
  have d: "\<exists>y. (f has_real_derivative y) (at t) \<and> 0 \<le> y" for t
  proof (intro exI conjI)
    show "(f has_real_derivative (inverse (1 + t\<^sup>2) - 1 + t ^ 2)) (at t)"
      unfolding f_def by (auto intro!: derivative_eq_intros)
    have p: "0 < 1 + t\<^sup>2"
      by (simp add: add_pos_nonneg)
    have "(t ^ 2 - 1) * (1 + t\<^sup>2) = t ^ 4 - 1"
      by algebra
    then have "t ^ 2 - 1 = (t ^ 4 - 1) / (1 + t\<^sup>2)"
      using p by (simp add: eq_divide_eq)
    then have "inverse (1 + t\<^sup>2) - 1 + t ^ 2 = t ^ 4 / (1 + t\<^sup>2)"
      by (simp add: inverse_eq_divide diff_divide_distrib)
    then show "0 \<le> inverse (1 + t\<^sup>2) - 1 + t ^ 2"
      by (simp add: add_pos_nonneg)
  qed
  have "f 0 \<le> f x"
    by (rule DERIV_nonneg_imp_nondecreasing [OF assms d])
  then show ?thesis
    by (simp add: f_def)
qed

lemma pi_upper: "pi < 13176795 / 4194304"
proof -
  define A :: real
    where "A = (1/5) - (1/5) ^ 3 / 3 + (1/5) ^ 5 / 5 - (1/5) ^ 7 / 7 + (1/5) ^ 9 / 9"
  define B :: real where "B = (1/239) - (1/239) ^ 3 / 3"
  have u: "arctan (1 / 5) \<le> A"
    unfolding A_def by (rule arctan_upper_9) simp
  have l: "B \<le> arctan (1 / 239)"
    unfolding B_def by (rule arctan_lower_3) simp
  have "pi = 16 * arctan (1 / 5) - 4 * arctan (1 / 239)"
    using machin by simp
  also have "\<dots> \<le> 16 * A - 4 * B"
    using u l by linarith
  also have "\<dots> < 13176795 / 4194304"
    unfolding A_def B_def by (simp add: power_divide)
  finally show ?thesis .
qed

lemma delta_theta_pos: "0 < delta_theta"
  by (simp add: delta_theta_eq)

lemma delta_theta_ge: "1 / 512 \<le> delta_theta"
  by (simp add: delta_theta_eq)

lemma float_round_exceeds_delta_theta:
  "delta_theta < \<bar>float_round x\<bar> \<longleftrightarrow> delta_theta + 1 / 2 ^ 33 \<le> \<bar>x\<bar>"
  by (simp add: delta_theta_less_abs_float_round) (simp add: delta_theta_eq)

lemma float_round_within_delta_theta:
  "\<bar>float_round x\<bar> \<le> delta_theta \<longleftrightarrow> \<bar>x\<bar> < delta_theta + 1 / 2 ^ 33"
  using float_round_exceeds_delta_theta [of x] by linarith

lemma claimed_bound_less_delta_theta: "(pi / 2) / 512 < delta_theta"
  using pi_upper by (simp add: delta_theta_eq)

subsection \<open>The smoothing transform\<close>

lemma scan_left_theta: "theta (scan_left c j rt) = theta rt"
  by (induction c j rt rule: scan_left.induct) (subst scan_left.simps, simp)

lemma scan_left_le: "radius (scan_left c j rt) \<le> radius rt"
proof (induction c j rt rule: scan_left.induct)
  case (1 c j rt)
  show ?case
    by (subst scan_left.simps) (use 1 in \<open>auto simp: min_le_iff_disj intro: order_trans\<close>)
qed

lemma scan_right_theta: "theta (scan_right c j rt) = theta rt"
  by (induction c j rt rule: scan_right.induct) (subst scan_right.simps, simp)

lemma scan_right_le: "radius (scan_right c j rt) \<le> radius rt"
proof (induction c j rt rule: scan_right.induct)
  case (1 c j rt)
  show ?case
    by (subst scan_right.simps) (use 1 in \<open>auto simp: min_le_iff_disj intro: order_trans\<close>)
qed

lemma smallest_r_loop_length: "length (smallest_r_loop c i scan) = length scan"
  by (induction c i scan rule: smallest_r_loop.induct) (subst smallest_r_loop.simps, simp)

lemma smallest_r_loop_nth:
  "length scan = length c \<Longrightarrow> 0 \<le> k \<Longrightarrow> i < length c \<Longrightarrow>
   smallest_r_loop c k scan ! i =
     (if int i < k then scan ! i else scan_right c (int i) (scan_left c (int i) (scan ! i)))"
proof (induction c k scan rule: smallest_r_loop.induct)
  case (1 c k scan)
  show ?case
  proof (cases "k < int (length c)")
    case True
    let ?scan' = "scan[nat k := scan_right c k (scan_left c k (scan ! nat k))]"
    have "smallest_r_loop c k scan ! i = smallest_r_loop c (k + 1) ?scan' ! i"
      using True 1 by (subst smallest_r_loop.simps) simp
    also have "\<dots> = (if int i < k + 1 then ?scan' ! i
                      else scan_right c (int i) (scan_left c (int i) (?scan' ! i)))"
      using True 1 by simp
    also have "\<dots> = (if int i < k then scan ! i
                      else scan_right c (int i) (scan_left c (int i) (scan ! i)))"
      using True 1 by (auto simp: nth_list_update)
    finally show ?thesis .
  next
    case False
    then show ?thesis
      using 1 by (subst smallest_r_loop.simps) simp
  qed
qed

lemma compute_smallest_r_length:
  "length (compute_smallest_r_within_delta_theta s) = length s"
  by (simp add: compute_smallest_r_within_delta_theta_def smallest_r_loop_length)

lemma compute_smallest_r_nth:
  "i < length s \<Longrightarrow> compute_smallest_r_within_delta_theta s ! i =
     scan_right s (int i) (scan_left s (int i) (s ! i))"
  by (simp add: compute_smallest_r_within_delta_theta_def smallest_r_loop_nth)

lemma finite_left_run [simp]: "finite (left_run c th i)"
  by (simp add: left_run_def)

lemma finite_right_run [simp]: "finite (right_run c th i)"
  by (simp add: right_run_def)

lemma Min_insert_min:
  "finite S \<Longrightarrow> Min (insert (min a b) S) = Min (insert a (insert b S))"
  for a :: "'a::linorder"
  by (cases "S = {}") (simp_all add: min.assoc)

lemma left_run_0:
  "left_run c th 0 = (if \<bar>float_round (theta (c ! 0) - th)\<bar> \<le> delta_theta then {0} else {})"
  by (auto simp: left_run_def)

lemma left_run_Suc:
  "left_run c th (Suc j) =
     (if \<bar>float_round (theta (c ! Suc j) - th)\<bar> \<le> delta_theta then insert (Suc j) (left_run c th j) else {})"
proof (cases "\<bar>float_round (theta (c ! Suc j) - th)\<bar> \<le> delta_theta")
  case True
  have "left_run c th (Suc j) = insert (Suc j) (left_run c th j)"
    unfolding left_run_def using True
    by (auto simp: le_Suc_eq)
  then show ?thesis using True by simp
next
  case False
  then have "left_run c th (Suc j) = {}"
    unfolding left_run_def by auto
  then show ?thesis using False by simp
qed

lemma right_run_beyond: "length c \<le> j \<Longrightarrow> right_run c th j = {}"
  by (auto simp: right_run_def)

lemma right_run_step:
  "j < length c \<Longrightarrow> right_run c th j =
     (if \<bar>float_round (theta (c ! j) - th)\<bar> \<le> delta_theta then insert j (right_run c th (Suc j)) else {})"
proof (cases "\<bar>float_round (theta (c ! j) - th)\<bar> \<le> delta_theta")
  case True
  assume j: "j < length c"
  have "right_run c th j = insert j (right_run c th (Suc j))"
  proof (rule set_eqI)
    fix k
    show "k \<in> right_run c th j \<longleftrightarrow> k \<in> insert j (right_run c th (Suc j))"
    proof (cases "k = j")
      case True
      then show ?thesis using j \<open>\<bar>float_round (theta (c ! j) - th)\<bar> \<le> delta_theta\<close>
        by (simp add: right_run_def)
    next
      case False
      have "(\<forall>l\<in>{j..k}. \<bar>float_round (theta (c ! l) - th)\<bar> \<le> delta_theta) \<longleftrightarrow>
            (\<forall>l\<in>{Suc j..k}. \<bar>float_round (theta (c ! l) - th)\<bar> \<le> delta_theta)" if "j < k"
        using that \<open>\<bar>float_round (theta (c ! j) - th)\<bar> \<le> delta_theta\<close>
        by (metis atLeastAtMost_iff le_antisym not_less_eq_eq Suc_leD)
      then show ?thesis using False
        by (auto simp: right_run_def)
    qed
  qed
  then show ?thesis using True by simp
next
  case False
  then have "right_run c th j = {}"
    unfolding right_run_def by auto
  then show ?thesis using False by simp
qed

lemma scan_left_radius:
  "radius (scan_left c (int j) rt) =
     Min (insert (radius rt) ((\<lambda>k. radius (c ! k)) ` left_run c (theta rt) j))"
proof (induction j arbitrary: rt)
  case 0
  have "scan_left c (- 1) r = r" for r
    by (subst scan_left.simps) simp
  then show ?case
    by (subst scan_left.simps) (simp add: left_run_0 not_less insert_commute)
next
  case (Suc j)
  show ?case
  proof (cases "\<bar>float_round (theta (c ! Suc j) - theta rt)\<bar> \<le> delta_theta")
    case True
    let ?rt = "rt\<lparr>radius := min (radius rt) (radius (c ! Suc j))\<rparr>"
    have "scan_left c (int (Suc j)) rt = scan_left c (int j) ?rt"
      using True by (subst scan_left.simps) (simp add: not_less nat_add_distrib)
    then have "radius (scan_left c (int (Suc j)) rt) =
        Min (insert (min (radius rt) (radius (c ! Suc j)))
               ((\<lambda>k. radius (c ! k)) ` left_run c (theta rt) j))"
      using Suc.IH [of ?rt] by simp
    also have "\<dots> = Min (insert (radius rt)
               ((\<lambda>k. radius (c ! k)) ` left_run c (theta rt) (Suc j)))"
      using True by (simp add: Min_insert_min left_run_Suc)
    finally show ?thesis .
  next
    case False
    then show ?thesis
      by (subst scan_left.simps) (simp add: left_run_Suc nat_add_distrib)
  qed
qed

lemma scan_right_radius:
  "radius (scan_right c (int j) rt) =
     Min (insert (radius rt) ((\<lambda>k. radius (c ! k)) ` right_run c (theta rt) j))"
proof (induction "length c - j" arbitrary: j rt)
  case 0
  then show ?case
    by (subst scan_right.simps) (simp add: right_run_beyond)
next
  case (Suc n)
  then have j: "j < length c" by simp
  show ?case
  proof (cases "\<bar>float_round (theta (c ! j) - theta rt)\<bar> \<le> delta_theta")
    case True
    let ?rt = "rt\<lparr>radius := min (radius rt) (radius (c ! j))\<rparr>"
    have n: "n = length c - Suc j" using Suc.hyps(2) by simp
    have "scan_right c (int j) rt = scan_right c (int (Suc j)) ?rt"
      using True j by (subst scan_right.simps) (simp add: not_less add.commute)
    then have "radius (scan_right c (int j) rt) =
        Min (insert (min (radius rt) (radius (c ! j)))
               ((\<lambda>k. radius (c ! k)) ` right_run c (theta rt) (Suc j)))"
      using Suc.hyps(1) [OF n, of ?rt] by simp
    also have "\<dots> = Min (insert (radius rt)
               ((\<lambda>k. radius (c ! k)) ` right_run c (theta rt) j))"
      using True j by (simp add: Min_insert_min right_run_step [of j])
    finally show ?thesis .
  next
    case False
    then show ?thesis
      using j by (subst scan_right.simps) (simp add: right_run_step [of j])
  qed
qed

lemma Min_insert_Min:
  "finite A \<Longrightarrow> finite B \<Longrightarrow> A \<noteq> {} \<Longrightarrow> Min (insert (Min A) B) = Min (A \<union> B)"
  for A :: "'a::linorder set"
  by (cases "B = {}") (simp_all add: Min_Un)

lemma self_in_left_run: "i \<in> left_run s (theta (s ! i)) i"
  using delta_theta_pos by (simp add: left_run_def)

lemma self_in_right_run: "i < length s \<Longrightarrow> i \<in> right_run s (theta (s ! i)) i"
  using delta_theta_pos by (simp add: right_run_def)

lemma self_in_window_run: "i \<in> window_run s i"
  by (simp add: window_run_def self_in_left_run)

lemma finite_window_run [simp]: "finite (window_run s i)"
  by (simp add: window_run_def)

lemma window_run_less: "j \<in> window_run s i \<Longrightarrow> i < length s \<Longrightarrow> j < length s"
  by (auto simp: window_run_def left_run_def right_run_def)

lemma new_radius:
  assumes "i < length s"
  shows "radius (scan_right s (int i) (scan_left s (int i) (s ! i))) =
           Min ((\<lambda>j. radius (s ! j)) ` window_run s i)"
proof -
  let ?f = "\<lambda>j. radius (s ! j)"
  let ?L = "left_run s (theta (s ! i)) i" and ?R = "right_run s (theta (s ! i)) i"
  have iL: "insert (?f i) (?f ` ?L) = ?f ` ?L"
    using self_in_left_run [of i s] by blast
  have iR: "insert (?f i) (?f ` ?R) = ?f ` ?R"
    using self_in_right_run [OF assms] by blast
  have ne: "?f ` ?L \<noteq> {}"
    using self_in_left_run [of i s] by blast
  have "radius (scan_right s (int i) (scan_left s (int i) (s ! i))) =
          Min (insert (Min (?f ` ?L)) (?f ` ?R))"
    by (simp add: scan_right_radius scan_left_radius scan_left_theta iL)
  also have "\<dots> = Min (?f ` ?L \<union> ?f ` ?R)"
    using ne by (simp add: Min_insert_Min)
  finally show ?thesis
    by (simp add: window_run_def image_Un)
qed

lemma compute_smallest_r_radius:
  "i < length s \<Longrightarrow> radius (compute_smallest_r_within_delta_theta s ! i) =
     Min ((\<lambda>j. radius (s ! j)) ` window_run s i)"
  by (simp add: compute_smallest_r_nth new_radius)

lemma compute_smallest_r_theta:
  "i < length s \<Longrightarrow> theta (compute_smallest_r_within_delta_theta s ! i) = theta (s ! i)"
  by (simp add: compute_smallest_r_nth scan_right_theta scan_left_theta)

lemma compute_smallest_r_le:
  "i < length s \<Longrightarrow> radius (compute_smallest_r_within_delta_theta s ! i) \<le> radius (s ! i)"
  using scan_right_le [of s "int i" "scan_left s (int i) (s ! i)"] scan_left_le [of s "int i" "s ! i"]
  by (simp add: compute_smallest_r_nth)

lemma map_theta_compute_smallest_r:
  "map theta (compute_smallest_r_within_delta_theta s) = map theta s"
  by (rule nth_equalityI) (simp_all add: compute_smallest_r_length compute_smallest_r_theta)

lemma window_run_sorted:
  assumes "sorted (map theta s)" and "i < length s"
  shows "window_run s i =
    {j. j < length s \<and> \<bar>theta (s ! j) - theta (s ! i)\<bar> < delta_theta + 1 / 2 ^ 33}"
proof (rule set_eqI)
  fix j
  have mono: "theta (s ! a) \<le> theta (s ! b)" if "a \<le> b" "b < length s" for a b
    using assms(1) that by (simp add: sorted_iff_nth_mono)
  show "j \<in> window_run s i \<longleftrightarrow>
        j \<in> {j. j < length s \<and> \<bar>theta (s ! j) - theta (s ! i)\<bar> < delta_theta + 1 / 2 ^ 33}"
  proof
    assume "j \<in> window_run s i"
    then show "j \<in> {j. j < length s \<and> \<bar>theta (s ! j) - theta (s ! i)\<bar> < delta_theta + 1 / 2 ^ 33}"
      using assms(2)
      by (auto simp: window_run_def left_run_def right_run_def float_round_within_delta_theta)
  next
    assume "j \<in> {j. j < length s \<and> \<bar>theta (s ! j) - theta (s ! i)\<bar> < delta_theta + 1 / 2 ^ 33}"
    then have j: "j < length s"
      and d: "\<bar>theta (s ! j) - theta (s ! i)\<bar> < delta_theta + 1 / 2 ^ 33"
      by simp_all
    show "j \<in> window_run s i"
    proof (cases "j \<le> i")
      case True
      have "\<bar>theta (s ! k) - theta (s ! i)\<bar> < delta_theta + 1 / 2 ^ 33"
        if "j \<le> k" "k \<le> i" for k
        using mono [of j k] mono [of k i] that assms(2) d by simp
      then have "j \<in> left_run s (theta (s ! i)) i"
        using True by (simp add: left_run_def float_round_within_delta_theta)
      then show ?thesis by (simp add: window_run_def)
    next
      case False
      have "\<bar>theta (s ! k) - theta (s ! i)\<bar> < delta_theta + 1 / 2 ^ 33"
        if "i \<le> k" "k \<le> j" for k
        using mono [of i k] mono [of k j] that j d by simp
      then have "j \<in> right_run s (theta (s ! i)) i"
        using False j by (simp add: right_run_def float_round_within_delta_theta)
      then show ?thesis by (simp add: window_run_def)
    qed
  qed
qed

lemma window_boundary_example_smoothed:
  "compute_smallest_r_within_delta_theta window_boundary_example =
     [\<lparr>radius = 1, theta = 0\<rparr>,
      \<lparr>radius = 1, theta = delta_theta / 2\<rparr>,
      \<lparr>radius = 5, theta = 2 * delta_theta\<rparr>]"
  using delta_theta_ge
  by (simp add: compute_smallest_r_within_delta_theta_def window_boundary_example_def
      smallest_r_loop.simps scan_left.simps scan_right.simps
      float_round_exceeds_delta_theta)

lemma float_bound_example_eq:
  "float_bound_example = [\<lparr>radius = 5, theta = 0\<rparr>, \<lparr>radius = 1, theta = delta_theta\<rparr>]"
  by (simp add: float_bound_example_def delta_theta_eq)

lemma float_bound_example_smoothed:
  "compute_smallest_r_within_delta_theta float_bound_example =
     [\<lparr>radius = 1, theta = 0\<rparr>, \<lparr>radius = 1, theta = delta_theta\<rparr>]"
  unfolding float_bound_example_eq
  using delta_theta_ge
  by (simp add: compute_smallest_r_within_delta_theta_def
      smallest_r_loop.simps scan_left.simps scan_right.simps
      float_round_exceeds_delta_theta)

lemma float_bound_example_claimed_window:
  "claimed_window_run float_bound_example 0 = {0}"
proof -
  have far: "\<not> \<bar>theta (float_bound_example ! 1) - 0\<bar> \<le> (pi / 2) / 512"
    using claimed_bound_less_delta_theta delta_theta_pos
    by (simp add: float_bound_example_eq)
  have "claimed_left_run float_bound_example 0 0 = {0}"
    by (auto simp: claimed_left_run_def float_bound_example_eq)
  moreover have "claimed_right_run float_bound_example 0 0 = {0}"
  proof -
    have "j = 0" if "j \<in> claimed_right_run float_bound_example 0 0" for j
    proof -
      have j: "j < 2"
        and within: "\<forall>k\<in>{0..j}. \<bar>theta (float_bound_example ! k) - 0\<bar> \<le> (pi / 2) / 512"
        using that by (simp_all add: claimed_right_run_def float_bound_example_def)
      have "j \<noteq> 1"
      proof
        assume "j = 1"
        with within have "\<bar>theta (float_bound_example ! 1) - 0\<bar> \<le> (pi / 2) / 512"
          by simp
        with far show False ..
      qed
      with j show ?thesis by linarith
    qed
    moreover have "0 \<in> claimed_right_run float_bound_example 0 0"
      by (simp add: claimed_right_run_def float_bound_example_eq)
    ultimately show ?thesis by blast
  qed
  ultimately show ?thesis
    by (simp add: claimed_window_run_def float_bound_example_eq)
qed

text \<open>
  C1, as stated, takes the window bound to be \<open>(\<pi>/2)/512\<close>. The bound of the code is
  the \<^verbatim>\<open>float\<close> constant \<open>delta_theta\<close>, which is \<open>13176795 / 2^32\<close> and a little more than
  \<open>(\<pi>/2)/512\<close>. On the two sorted samples of \<open>float_bound_example\<close>, whose thetas are
  exactly that constant apart, the second sample is in the window of the first for the
  code, which lowers the first radius to \<open>1\<close>; it is outside the window of the claim,
  whose minimum is \<open>5\<close>.
\<close>

theorem claimed_bound_counterexample:
  "sorted (map theta float_bound_example)
   \<and> radius (compute_smallest_r_within_delta_theta float_bound_example ! 0) = 1
   \<and> claimed_window_run float_bound_example 0 = {0}
   \<and> Min ((\<lambda>j. radius (float_bound_example ! j)) ` claimed_window_run float_bound_example 0) = 5
   \<and> radius (compute_smallest_r_within_delta_theta float_bound_example ! 0) \<noteq>
       Min ((\<lambda>j. radius (float_bound_example ! j)) ` claimed_window_run float_bound_example 0)"
proof -
  have 1: "sorted (map theta float_bound_example)"
    by (simp add: float_bound_example_def)
  have 2: "radius (compute_smallest_r_within_delta_theta float_bound_example ! 0) = 1"
    by (simp add: float_bound_example_smoothed)
  have 3: "Min ((\<lambda>j. radius (float_bound_example ! j)) `
      claimed_window_run float_bound_example 0) = 5"
    by (subst float_bound_example_claimed_window) (simp add: float_bound_example_def)
  have 4: "radius (compute_smallest_r_within_delta_theta float_bound_example ! 0) \<noteq>
      Min ((\<lambda>j. radius (float_bound_example ! j)) ` claimed_window_run float_bound_example 0)"
    by (simp add: 2 3)
  show ?thesis
    by (intro conjI) (rule 1 2 3 4 float_bound_example_claimed_window)+
qed

text \<open>
  C1, amended. One pass of the smoothing transform replaces the radius of each sample
  \<open>i\<close> with the minimum radius over the window of \<open>i\<close>: the contiguous run of indices
  reached leftward and rightward from \<open>i\<close> while the single-precision difference of
  theta from that of \<open>i\<close> is at most the single-precision constant \<open>delta_theta\<close>, sample
  \<open>i\<close> included. The constant is \<open>13176795 / 2^32\<close>, a little more than \<open>(\<pi>/2)/512\<close>.
  The minimum is taken over the radii and angles of the sequence as it was before the
  pass, so it does not depend on what the pass has already rewritten. On a sequence
  sorted ascending by theta the window holds exactly the samples within that bound of
  sample \<open>i\<close>; in exact terms, those whose theta is less than \<open>delta_theta + 2^(-33)\<close>
  away. For the three samples at theta \<open>0, delta_theta/2, 2 delta_theta\<close> with radii
  \<open>5, 1, 5\<close> the smoothed radii are \<open>1, 1, 5\<close>.
\<close>

theorem smoothing_takes_window_minimum:
  assumes "i < length s"
  shows "length (compute_smallest_r_within_delta_theta s) = length s
       \<and> compute_smallest_r_within_delta_theta s ! i =
           (s ! i)\<lparr>radius := Min ((\<lambda>j. radius (s ! j)) ` window_run s i)\<rparr>
       \<and> i \<in> window_run s i
       \<and> (sorted (map theta s) \<longrightarrow>
            window_run s i =
              {j. j < length s \<and> \<bar>float_round (theta (s ! j) - theta (s ! i))\<bar> \<le> delta_theta})
       \<and> (sorted (map theta s) \<longrightarrow>
            window_run s i =
              {j. j < length s \<and> \<bar>theta (s ! j) - theta (s ! i)\<bar> < delta_theta + 1 / 2 ^ 33})
       \<and> delta_theta = 13176795 / 2 ^ 32
       \<and> (pi / 2) / 512 < delta_theta
       \<and> map radius (compute_smallest_r_within_delta_theta window_boundary_example) = [1, 1, 5]"
proof -
  have 1: "length (compute_smallest_r_within_delta_theta s) = length s"
    by (rule compute_smallest_r_length)
  have 2: "compute_smallest_r_within_delta_theta s ! i =
          (s ! i)\<lparr>radius := Min ((\<lambda>j. radius (s ! j)) ` window_run s i)\<rparr>"
    using assms compute_smallest_r_radius [of i s] compute_smallest_r_theta [of i s]
    by (intro radius_theta.equality) simp_all
  have 3: "i \<in> window_run s i"
    by (rule self_in_window_run)
  have 4: "sorted (map theta s) \<longrightarrow> window_run s i =
      {j. j < length s \<and> \<bar>float_round (theta (s ! j) - theta (s ! i))\<bar> \<le> delta_theta}"
    using assms by (simp add: window_run_sorted float_round_within_delta_theta)
  have 5: "sorted (map theta s) \<longrightarrow> window_run s i =
      {j. j < length s \<and> \<bar>theta (s ! j) - theta (s ! i)\<bar> < delta_theta + 1 / 2 ^ 33}"
    using assms by (simp add: window_run_sorted)
  have 6: "map radius (compute_smallest_r_within_delta_theta window_boundary_example) =
      [1, 1, 5]"
    by (simp add: window_boundary_example_smoothed)
  show ?thesis
    by (intro conjI) (rule 1 2 3 4 5 6 delta_theta_eq claimed_bound_less_delta_theta)+
qed

theorem smoothing_takes_window_minimum_witness:
  "0 < length window_boundary_example
   \<and> sorted (map theta window_boundary_example)
   \<and> compute_smallest_r_within_delta_theta window_boundary_example ! 0 = \<lparr>radius = 1, theta = 0\<rparr>
   \<and> Min ((\<lambda>j. radius (window_boundary_example ! j)) ` window_run window_boundary_example 0) = 1
   \<and> window_run window_boundary_example 0 =
       {j. j < 3 \<and> \<bar>theta (window_boundary_example ! j) - 0\<bar> < delta_theta + 1 / 2 ^ 33}"
proof -
  have l: "0 < length window_boundary_example" "length window_boundary_example = 3"
    by (simp_all add: window_boundary_example_def)
  have s: "sorted (map theta window_boundary_example)"
    using delta_theta_pos by (simp add: window_boundary_example_def)
  have z: "window_boundary_example ! 0 = \<lparr>radius = 5, theta = 0\<rparr>"
    by (simp add: window_boundary_example_def)
  have e: "compute_smallest_r_within_delta_theta window_boundary_example ! 0 =
      \<lparr>radius = 1, theta = 0\<rparr>"
    by (simp add: window_boundary_example_smoothed)
  note t = smoothing_takes_window_minimum [OF l(1)]
  from t have "compute_smallest_r_within_delta_theta window_boundary_example ! 0 =
      (window_boundary_example ! 0)
        \<lparr>radius := Min ((\<lambda>j. radius (window_boundary_example ! j)) `
                         window_run window_boundary_example 0)\<rparr>"
    by (rule conjunct2 [THEN conjunct1])
  then have m: "Min ((\<lambda>j. radius (window_boundary_example ! j)) `
                  window_run window_boundary_example 0) = 1"
    by (simp add: e z)
  from t have "sorted (map theta window_boundary_example) \<longrightarrow>
      window_run window_boundary_example 0 =
        {j. j < length window_boundary_example \<and>
            \<bar>theta (window_boundary_example ! j) - theta (window_boundary_example ! 0)\<bar>
              < delta_theta + 1 / 2 ^ 33}"
    by (rule conjunct2 [THEN conjunct2, THEN conjunct2, THEN conjunct2, THEN conjunct1])
  then have w: "window_run window_boundary_example 0 =
       {j. j < 3 \<and> \<bar>theta (window_boundary_example ! j) - 0\<bar> < delta_theta + 1 / 2 ^ 33}"
    using s by (simp only: l(2) z radius_theta.simps simp_thms)
  show ?thesis
    by (intro conjI) (rule l(1) s e m w)+
qed

text \<open>
  C3. For every polar sequence, one pass of the smoothing transform keeps the length of
  the sequence, keeps the theta of every sample, and gives every sample a radius that
  is less than or equal to its original radius.
\<close>

theorem smoothing_never_increases_radius:
  "length (compute_smallest_r_within_delta_theta s) = length s \<and>
   (\<forall>i < length s.
      radius (compute_smallest_r_within_delta_theta s ! i) \<le> radius (s ! i) \<and>
      theta (compute_smallest_r_within_delta_theta s ! i) = theta (s ! i))"
  by (simp add: compute_smallest_r_length compute_smallest_r_le compute_smallest_r_theta)

theorem smoothing_never_increases_radius_witness:
  "length (compute_smallest_r_within_delta_theta window_boundary_example) = 3 \<and>
   radius (compute_smallest_r_within_delta_theta window_boundary_example ! 0) \<le> 5 \<and>
   theta (compute_smallest_r_within_delta_theta window_boundary_example ! 0) = 0 \<and>
   radius (compute_smallest_r_within_delta_theta window_boundary_example ! 2) \<le> 5 \<and>
   theta (compute_smallest_r_within_delta_theta window_boundary_example ! 2) = 2 * delta_theta"
proof -
  note t = smoothing_never_increases_radius [of window_boundary_example]
  have l: "length window_boundary_example = 3"
    by (simp add: window_boundary_example_def)
  have "length (compute_smallest_r_within_delta_theta window_boundary_example) = 3"
    using t l by simp
  moreover have "radius (compute_smallest_r_within_delta_theta window_boundary_example ! 0) \<le> 5 \<and>
     theta (compute_smallest_r_within_delta_theta window_boundary_example ! 0) = 0"
    using t [THEN conjunct2, rule_format, of 0] by (simp add: window_boundary_example_def)
  moreover have "radius (compute_smallest_r_within_delta_theta window_boundary_example ! 2) \<le> 5 \<and>
     theta (compute_smallest_r_within_delta_theta window_boundary_example ! 2) = 2 * delta_theta"
    using t [THEN conjunct2, rule_format, of 2] by (simp add: window_boundary_example_def)
  ultimately show ?thesis by simp
qed

subsection \<open>The polar view\<close>

lemma getScanRT_fst:
  "fst (getScanRT need_sort m) =
     compute_smallest_r_within_delta_theta
       (scan_rt (sort_if_needed need_sort (derive_rt_if_empty m)))"
  by (simp add: getScanRT_def smooth_in_place_def)

lemma getScanRT_snd:
  "snd (getScanRT need_sort m) =
     smooth_in_place (sort_if_needed need_sort (derive_rt_if_empty m))"
  by (simp add: getScanRT_def Let_def)

lemma getScanRT_stored: "scan_rt (snd (getScanRT need_sort m)) = fst (getScanRT need_sort m)"
  by (simp add: getScanRT_def Let_def)

lemma compute_smallest_r_eq_Nil [simp]:
  "compute_smallest_r_within_delta_theta s = [] \<longleftrightarrow> s = []"
  using compute_smallest_r_length [of s] by (metis length_0_conv)

lemma thetaAscendingSortScanRT_eq_Nil [simp]:
  "thetaAscendingSortScanRT s = [] \<longleftrightarrow> s = []"
  by (metis thetaAscendingSortScanRT_def length_sort length_0_conv)

lemma derive_after_getScanRT:
  "derive_rt_if_empty (snd (getScanRT need_sort m)) = snd (getScanRT need_sort m)"
  by (auto simp: getScanRT_def derive_rt_if_empty_def sort_if_needed_def smooth_in_place_def
      scanXYtoRT_map Let_def)

lemma flag_after_getScanRT_True: "sorted_by_theta (snd (getScanRT True m))"
  by (simp add: getScanRT_def sort_if_needed_def smooth_in_place_def Let_def)

lemma flag_after_getScanRT_False:
  "sorted_by_theta (snd (getScanRT False m)) = sorted_by_theta (derive_rt_if_empty m)"
  by (simp add: getScanRT_def sort_if_needed_def smooth_in_place_def Let_def)

lemma second_getScanRT:
  "fst (getScanRT b2 (snd (getScanRT b1 m))) =
     compute_smallest_r_within_delta_theta
       (if b2 \<and> \<not> sorted_by_theta (snd (getScanRT b1 m))
        then thetaAscendingSortScanRT (fst (getScanRT b1 m))
        else fst (getScanRT b1 m))"
  by (simp add: getScanRT_fst [of b2] derive_after_getScanRT sort_if_needed_def getScanRT_stored)

lemma repeated_getScanRT:
  "fst (getScanRT b (snd (getScanRT b m))) =
     compute_smallest_r_within_delta_theta (fst (getScanRT b m))"
  by (cases b) (simp_all add: second_getScanRT flag_after_getScanRT_True)

lemma resmoothing_example_once:
  "compute_smallest_r_within_delta_theta resmoothing_example =
     [\<lparr>radius = 5, theta = 0\<rparr>,
      \<lparr>radius = 1, theta = delta_theta\<rparr>,
      \<lparr>radius = 1, theta = 2 * delta_theta\<rparr>]"
  using delta_theta_ge
  by (simp add: compute_smallest_r_within_delta_theta_def resmoothing_example_def
      smallest_r_loop.simps scan_left.simps scan_right.simps
      float_round_exceeds_delta_theta)

lemma resmoothing_example_twice:
  "compute_smallest_r_within_delta_theta
     (compute_smallest_r_within_delta_theta resmoothing_example) =
     [\<lparr>radius = 1, theta = 0\<rparr>,
      \<lparr>radius = 1, theta = delta_theta\<rparr>,
      \<lparr>radius = 1, theta = 2 * delta_theta\<rparr>]"
  unfolding resmoothing_example_once
  using delta_theta_ge
  by (simp add: compute_smallest_r_within_delta_theta_def
      smallest_r_loop.simps scan_left.simps scan_right.simps
      float_round_exceeds_delta_theta)

lemma unsorted_pair_smoothed:
  "compute_smallest_r_within_delta_theta unsorted_pair = unsorted_pair"
  using delta_theta_ge
  by (simp add: compute_smallest_r_within_delta_theta_def unsorted_pair_def
      smallest_r_loop.simps scan_left.simps scan_right.simps
      float_round_exceeds_delta_theta)

lemma sorted_resmoothing_example: "sorted (map theta resmoothing_example)"
  using delta_theta_pos by (simp add: resmoothing_example_def)

text \<open>
  C4. Every call of \<open>getScanRT\<close> runs the smoothing transform on the stored polar
  sequence and returns (and stores) its result, whatever \<open>need_sort\<close> is: the returned
  sequence is the smoothing of the polar sequence as it stands after the conversion and
  the sort, when they apply. A second call with no write in between smooths the result
  of the first call once more; on \<open>resmoothing_example\<close> the first call returns the
  radii \<open>5, 1, 1\<close> and the second \<open>1, 1, 1\<close>.
\<close>

theorem getScanRT_always_smooths:
  "fst (getScanRT need_sort m) =
     compute_smallest_r_within_delta_theta
       (let derived = (scan_rt m = [] \<and> scan_xy m \<noteq> []);
            polar = (if derived then map XYtoRT (scan_xy m) else scan_rt m);
            flag = (if derived then False else sorted_by_theta m)
        in if need_sort \<and> \<not> flag then sort_key theta polar else polar)
   \<and> scan_rt (snd (getScanRT need_sort m)) = fst (getScanRT need_sort m)
   \<and> fst (getScanRT need_sort (snd (getScanRT need_sort m))) =
       compute_smallest_r_within_delta_theta (fst (getScanRT need_sort m))
   \<and> fst (getScanRT b2 (snd (getScanRT b1 m))) =
       compute_smallest_r_within_delta_theta
         (if b2 \<and> \<not> sorted_by_theta (snd (getScanRT b1 m))
          then thetaAscendingSortScanRT (fst (getScanRT b1 m))
          else fst (getScanRT b1 m))
   \<and> map radius (fst (getScanRT True (ScanMessage_rt resmoothing_example))) = [5, 1, 1]
   \<and> map radius (fst (getScanRT True (snd (getScanRT True (ScanMessage_rt resmoothing_example)))))
       = [1, 1, 1]"
proof -
  have 1: "fst (getScanRT need_sort m) =
     compute_smallest_r_within_delta_theta
       (let derived = (scan_rt m = [] \<and> scan_xy m \<noteq> []);
            polar = (if derived then map XYtoRT (scan_xy m) else scan_rt m);
            flag = (if derived then False else sorted_by_theta m)
        in if need_sort \<and> \<not> flag then sort_key theta polar else polar)"
    by (auto simp: getScanRT_fst derive_rt_if_empty_def sort_if_needed_def scanXYtoRT_map
        thetaAscendingSortScanRT_def Let_def)
  have s: "sort_key theta resmoothing_example = resmoothing_example"
    using sorted_resmoothing_example by (simp add: sort_key_id_if_sorted)
  have 5: "fst (getScanRT True (ScanMessage_rt resmoothing_example)) =
      compute_smallest_r_within_delta_theta resmoothing_example"
    by (simp add: getScanRT_fst derive_rt_if_empty_def sort_if_needed_def ScanMessage_rt_def
        thetaAscendingSortScanRT_def s)
  have 6: "fst (getScanRT True (snd (getScanRT True (ScanMessage_rt resmoothing_example)))) =
      compute_smallest_r_within_delta_theta
        (compute_smallest_r_within_delta_theta resmoothing_example)"
    by (simp only: repeated_getScanRT 5)
  have 7: "map radius (fst (getScanRT True (ScanMessage_rt resmoothing_example))) = [5, 1, 1]"
    by (simp add: 5 resmoothing_example_once)
  have 8: "map radius
      (fst (getScanRT True (snd (getScanRT True (ScanMessage_rt resmoothing_example))))) =
      [1, 1, 1]"
    by (simp only: 6 resmoothing_example_twice) simp
  show ?thesis
    by (intro conjI) (rule 1 getScanRT_stored repeated_getScanRT second_getScanRT 7 8)+
qed

text \<open>
  C5, as stated, says that the first of two calls \<open>getScanRT(true)\<close> returns a sequence
  sorted by theta. The flag set by \<open>setScanRT(\<dots>, true)\<close> is the word of the caller and
  is not checked: on a frame that holds \<open>unsorted_pair\<close> under a flag that reads sorted,
  the call does not sort and returns the samples in descending order of theta.
\<close>

theorem flagged_unsorted_counterexample:
  "\<not> sorted (map theta (fst (getScanRT True (setScanRT unsorted_pair True (ScanMessage_tp 0)))))"
proof -
  have "fst (getScanRT True (setScanRT unsorted_pair True (ScanMessage_tp 0))) = unsorted_pair"
    by (simp add: getScanRT_fst derive_rt_if_empty_def sort_if_needed_def setScanRT_fields
        unsorted_pair_smoothed)
  then show ?thesis
    using delta_theta_pos by (simp add: unsorted_pair_def)
qed

text \<open>
  C5, amended. After a call \<open>getScanRT(true)\<close> the flag reads sorted, on every frame, so
  that a second call with no write in between neither converts nor sorts: it returns the
  smoothing of what the first call returned, in the same order. The sequence returned by
  the first call is sorted ascending by theta whenever the flag told the truth before the
  call (if it read sorted, the stored polar sequence was sorted).
\<close>

theorem getScanRT_twice_sorts_once:
  "sorted_by_theta (snd (getScanRT True m))
   \<and> sort_if_needed True (derive_rt_if_empty (snd (getScanRT True m))) = snd (getScanRT True m)
   \<and> fst (getScanRT True (snd (getScanRT True m))) =
       compute_smallest_r_within_delta_theta (fst (getScanRT True m))
   \<and> ((sorted_by_theta m \<longrightarrow> sorted (map theta (scan_rt m))) \<longrightarrow>
        sorted (map theta (fst (getScanRT True m))))"
proof -
  have "sorted (map theta (fst (getScanRT True m)))"
    if "sorted_by_theta m \<longrightarrow> sorted (map theta (scan_rt m))"
    using that
    by (auto simp: getScanRT_fst map_theta_compute_smallest_r derive_rt_if_empty_def
        sort_if_needed_def thetaAscendingSortScanRT_def)
  then show ?thesis
    by (simp add: flag_after_getScanRT_True derive_after_getScanRT sort_if_needed_def
        repeated_getScanRT)
qed

theorem getScanRT_twice_sorts_once_witness:
  "fst (getScanRT True (ScanMessage_rt unsorted_pair)) =
     [\<lparr>radius = 2, theta = 0\<rparr>, \<lparr>radius = 1, theta = 4 * delta_theta\<rparr>]
   \<and> sorted (map theta (fst (getScanRT True (ScanMessage_rt unsorted_pair))))
   \<and> sorted_by_theta (snd (getScanRT True (ScanMessage_rt unsorted_pair)))
   \<and> sorted_by_theta (setScanRT resmoothing_example True (ScanMessage_tp 0))
   \<and> sorted (map theta (scan_rt (setScanRT resmoothing_example True (ScanMessage_tp 0))))
   \<and> sorted (map theta
        (fst (getScanRT True (setScanRT resmoothing_example True (ScanMessage_tp 0)))))"
proof -
  note t = getScanRT_twice_sorts_once [of "ScanMessage_rt unsorted_pair"]
  note t' = getScanRT_twice_sorts_once
    [of "setScanRT resmoothing_example True (ScanMessage_tp 0)"]
  have f: "\<not> sorted_by_theta (ScanMessage_rt unsorted_pair)"
    by (simp add: ScanMessage_rt_def)
  have 1: "sorted (map theta (fst (getScanRT True (ScanMessage_rt unsorted_pair))))"
    using t f by simp
  have 2: "sorted_by_theta (snd (getScanRT True (ScanMessage_rt unsorted_pair)))"
    using t by simp
  have 3: "fst (getScanRT True (ScanMessage_rt unsorted_pair)) =
     [\<lparr>radius = 2, theta = 0\<rparr>, \<lparr>radius = 1, theta = 4 * delta_theta\<rparr>]"
    using delta_theta_ge
    by (simp add: getScanRT_fst derive_rt_if_empty_def sort_if_needed_def ScanMessage_rt_def
        thetaAscendingSortScanRT_def unsorted_pair_def
        compute_smallest_r_within_delta_theta_def
        smallest_r_loop.simps scan_left.simps scan_right.simps
      float_round_exceeds_delta_theta)
  have 4: "sorted_by_theta (setScanRT resmoothing_example True (ScanMessage_tp 0))"
    by (simp add: setScanRT_fields)
  have 5: "sorted (map theta (scan_rt (setScanRT resmoothing_example True (ScanMessage_tp 0))))"
    by (simp add: setScanRT_fields sorted_resmoothing_example)
  have 6: "sorted (map theta
        (fst (getScanRT True (setScanRT resmoothing_example True (ScanMessage_tp 0)))))"
    using t' 5 by blast
  show ?thesis
    by (intro conjI) (rule 1 2 3 4 5 6)+
qed

subsection \<open>Smoothing more than once\<close>

lemma left_run_cong:
  assumes "map theta s = map theta t" and "i < length s"
  shows "left_run s th i = left_run t th i"
proof -
  have len: "length s = length t"
    using assms(1) by (metis length_map)
  have "theta (s ! k) = theta (t ! k)" if "k \<le> i" for k
    using that assms len by (metis le_less_trans nth_map)
  then show ?thesis
    by (auto simp: left_run_def)
qed

lemma right_run_cong:
  assumes "map theta s = map theta t"
  shows "right_run s th i = right_run t th i"
proof -
  have len: "length s = length t"
    using assms by (metis length_map)
  have "theta (s ! k) = theta (t ! k)" if "k < length s" for k
    using that assms len by (metis nth_map)
  then show ?thesis
    using len by (auto simp: right_run_def)
qed

lemma window_run_cong:
  assumes "map theta s = map theta t" and "i < length s"
  shows "window_run s i = window_run t i"
proof -
  have "length s = length t"
    using assms(1) by (metis length_map)
  then have "theta (s ! i) = theta (t ! i)"
    using assms by (metis nth_map)
  then show ?thesis
    using assms by (simp add: window_run_def left_run_cong [OF assms] right_run_cong [OF assms(1)])
qed

lemma window_run_compute_smallest_r:
  "i < length s \<Longrightarrow> window_run (compute_smallest_r_within_delta_theta s) i = window_run s i"
  by (rule window_run_cong) (simp_all add: map_theta_compute_smallest_r compute_smallest_r_length)

lemma compute_smallest_r_closed_windows:
  assumes closed: "\<forall>i < length s. \<forall>j \<in> window_run s i. window_run s j \<subseteq> window_run s i"
  shows "compute_smallest_r_within_delta_theta (compute_smallest_r_within_delta_theta s) =
         compute_smallest_r_within_delta_theta s"
proof (rule nth_equalityI)
  let ?f = compute_smallest_r_within_delta_theta
  show "length (?f (?f s)) = length (?f s)"
    by (simp add: compute_smallest_r_length)
  fix i
  assume "i < length (?f (?f s))"
  then have i: "i < length s" "i < length (?f s)"
    by (simp_all add: compute_smallest_r_length)
  have ge: "radius (?f s ! i) \<le> radius (?f s ! j)" if "j \<in> window_run s i" for j
  proof -
    have j: "j < length s"
      using that i(1) by (rule window_run_less)
    have "Min ((\<lambda>k. radius (s ! k)) ` window_run s i) \<le> Min ((\<lambda>k. radius (s ! k)) ` window_run s j)"
    proof (rule Min_antimono)
      show "(\<lambda>k. radius (s ! k)) ` window_run s j \<subseteq> (\<lambda>k. radius (s ! k)) ` window_run s i"
        using closed i(1) that by blast
      show "(\<lambda>k. radius (s ! k)) ` window_run s j \<noteq> {}"
        using self_in_window_run [of j s] by blast
      show "finite ((\<lambda>k. radius (s ! k)) ` window_run s i)"
        by simp
    qed
    then show ?thesis
      using i(1) j by (simp add: compute_smallest_r_radius)
  qed
  have "radius (?f (?f s) ! i) = Min ((\<lambda>j. radius (?f s ! j)) ` window_run s i)"
    using i by (simp add: compute_smallest_r_radius window_run_compute_smallest_r)
  also have "\<dots> \<ge> radius (?f s ! i)"
    using ge self_in_window_run [of i s] by (intro Min.boundedI) auto
  finally have "radius (?f s ! i) \<le> radius (?f (?f s) ! i)" .
  moreover have "radius (?f (?f s) ! i) \<le> radius (?f s ! i)"
    using i(2) by (rule compute_smallest_r_le)
  moreover have "theta (?f (?f s) ! i) = theta (?f s ! i)"
    using i(2) by (rule compute_smallest_r_theta)
  ultimately show "?f (?f s) ! i = ?f s ! i"
    by (intro radius_theta.equality) simp_all
qed

lemma spread_increasing: "S \<subseteq> spread s S"
  using self_in_window_run by (auto simp: spread_def)

lemma spread_bounded: "S \<subseteq> {..<length s} \<Longrightarrow> spread s S \<subseteq> {..<length s}"
  using window_run_less by (auto simp: spread_def)

lemma spread_funpow_bounded:
  "S \<subseteq> {..<length s} \<Longrightarrow> (spread s ^^ k) S \<subseteq> {..<length s}"
  by (induction k) (simp_all add: spread_bounded)

lemma spread_funpow_finite: "S \<subseteq> {..<length s} \<Longrightarrow> finite ((spread s ^^ k) S)"
  by (rule finite_subset [OF spread_funpow_bounded]) simp_all

lemma spread_funpow_mono: "(spread s ^^ k) S \<subseteq> (spread s ^^ Suc k) S"
  by (simp add: spread_increasing)

lemma spread_funpow_grows:
  assumes "S \<subseteq> {..<length s}"
  shows "(spread s ^^ Suc k) S = (spread s ^^ k) S \<or> card S + k \<le> card ((spread s ^^ k) S)"
proof (induction k)
  case 0
  then show ?case by simp
next
  case (Suc k)
  show ?case
  proof (cases "(spread s ^^ Suc k) S = (spread s ^^ k) S")
    case True
    then have "(spread s ^^ Suc (Suc k)) S = (spread s ^^ Suc k) S"
      by simp
    then show ?thesis ..
  next
    case False
    then have "(spread s ^^ k) S \<subset> (spread s ^^ Suc k) S"
      using spread_funpow_mono [where s = s and k = k and S = S] by blast
    then have "card ((spread s ^^ k) S) < card ((spread s ^^ Suc k) S)"
      using spread_funpow_finite [OF assms, of "Suc k"] by (intro psubset_card_mono)
    moreover have "card S + k \<le> card ((spread s ^^ k) S)"
      using Suc False by blast
    ultimately show ?thesis by simp
  qed
qed

lemma spread_funpow_stable:
  assumes "i < length s"
  shows "(spread s ^^ length s) {i} = (spread s ^^ (length s - 1)) {i}"
proof -
  obtain n where n: "length s = Suc n"
    using assms by (cases "length s") simp_all
  have sub: "{i} \<subseteq> {..<length s}"
    using assms by simp
  have "(spread s ^^ Suc n) {i} = (spread s ^^ n) {i}"
    using spread_funpow_grows [OF sub, of n]
  proof
    assume "card {i} + n \<le> card ((spread s ^^ n) {i})"
    then have "card {..<length s} \<le> card ((spread s ^^ n) {i})"
      by (simp add: n)
    then have "(spread s ^^ n) {i} = {..<length s}"
      using spread_funpow_bounded [OF sub, of n] by (intro card_seteq) simp_all
    moreover have "(spread s ^^ Suc n) {i} \<subseteq> {..<length s}"
      using sub by (rule spread_funpow_bounded)
    ultimately show ?thesis
      using spread_funpow_mono [where s = s and k = n and S = "{i}"] by blast
  qed
  then show ?thesis by (simp add: n)
qed

lemma Min_image_UN:
  fixes g :: "nat \<Rightarrow> real"
  assumes "finite S" and "S \<noteq> {}" and "\<And>l. l \<in> S \<Longrightarrow> finite (A l) \<and> A l \<noteq> {}"
  shows "Min ((\<lambda>l. Min (g ` A l)) ` S) = Min (g ` (\<Union>l\<in>S. A l))"
proof (rule antisym)
  have fin: "finite (g ` (\<Union>l\<in>S. A l))"
    using assms by simp
  have ne: "g ` (\<Union>l\<in>S. A l) \<noteq> {}"
    using assms by auto
  show "Min ((\<lambda>l. Min (g ` A l)) ` S) \<le> Min (g ` (\<Union>l\<in>S. A l))"
  proof (rule Min.boundedI [OF fin ne])
    fix a
    assume "a \<in> g ` (\<Union>l\<in>S. A l)"
    then obtain l k where l: "l \<in> S" and k: "k \<in> A l" and a: "a = g k"
      by blast
    have "Min ((\<lambda>l. Min (g ` A l)) ` S) \<le> Min (g ` A l)"
      using assms(1) l by (intro Min_le) simp_all
    also have "\<dots> \<le> g k"
      using assms(3) [OF l] k by (intro Min_le) simp_all
    finally show "Min ((\<lambda>l. Min (g ` A l)) ` S) \<le> a"
      by (simp add: a)
  qed
  show "Min (g ` (\<Union>l\<in>S. A l)) \<le> Min ((\<lambda>l. Min (g ` A l)) ` S)"
  proof (rule Min.boundedI)
    show "finite ((\<lambda>l. Min (g ` A l)) ` S)" using assms(1) by simp
    show "(\<lambda>l. Min (g ` A l)) ` S \<noteq> {}" using assms(2) by simp
    fix a
    assume "a \<in> (\<lambda>l. Min (g ` A l)) ` S"
    then obtain l where l: "l \<in> S" and a: "a = Min (g ` A l)"
      by blast
    have "g ` A l \<subseteq> g ` (\<Union>l\<in>S. A l)"
      using l by blast
    moreover have "g ` A l \<noteq> {}"
      using assms(3) [OF l] by simp
    ultimately have "Min (g ` (\<Union>l\<in>S. A l)) \<le> Min (g ` A l)"
      using fin by (intro Min_antimono)
    then show "Min (g ` (\<Union>l\<in>S. A l)) \<le> a"
      by (simp add: a)
  qed
qed

lemma spread_compute_smallest_r:
  assumes "S \<subseteq> {..<length s}"
  shows "spread (compute_smallest_r_within_delta_theta s) S = spread s S"
proof -
  have "window_run (compute_smallest_r_within_delta_theta s) j = window_run s j" if "j \<in> S" for j
    using that assms by (intro window_run_compute_smallest_r) auto
  then show ?thesis
    by (simp add: spread_def)
qed

lemma spread_funpow_compute_smallest_r:
  "S \<subseteq> {..<length s} \<Longrightarrow>
   (spread (compute_smallest_r_within_delta_theta s) ^^ k) S = (spread s ^^ k) S"
proof (induction k)
  case 0
  then show ?case by simp
next
  case (Suc k)
  then show ?case
    using spread_funpow_bounded [where S = S and s = s and k = k]
    by (simp add: spread_compute_smallest_r)
qed

lemma funpow_compute_smallest_r_length:
  "length ((compute_smallest_r_within_delta_theta ^^ k) s) = length s"
  by (induction k) (simp_all add: compute_smallest_r_length)

lemma funpow_compute_smallest_r_map_theta:
  "map theta ((compute_smallest_r_within_delta_theta ^^ k) s) = map theta s"
  by (induction k) (simp_all add: map_theta_compute_smallest_r)

lemma funpow_compute_smallest_r_radius:
  "i < length s \<Longrightarrow>
   radius ((compute_smallest_r_within_delta_theta ^^ k) s ! i) =
     Min ((\<lambda>j. radius (s ! j)) ` (spread s ^^ k) {i})"
proof (induction k arbitrary: s)
  case 0
  then show ?case by simp
next
  case (Suc k)
  let ?f = compute_smallest_r_within_delta_theta
  let ?S = "(spread s ^^ k) {i}"
  have sub: "{i} \<subseteq> {..<length s}"
    using Suc.prems by simp
  have S: "?S \<subseteq> {..<length s}"
    using sub by (rule spread_funpow_bounded)
  have i: "i \<in> ?S"
  proof (induction k)
    case 0
    show ?case by simp
  next
    case (Suc k)
    then show ?case using spread_increasing [where S = "(spread s ^^ k) {i}" and s = s] by auto
  qed
  have "radius ((?f ^^ Suc k) s ! i) = radius ((?f ^^ k) (?f s) ! i)"
    by (simp add: funpow_swap1)
  also have "\<dots> = Min ((\<lambda>j. radius (?f s ! j)) ` (spread (?f s) ^^ k) {i})"
    using Suc.prems by (intro Suc.IH) (simp add: compute_smallest_r_length)
  also have "\<dots> = Min ((\<lambda>j. radius (?f s ! j)) ` ?S)"
    using sub by (simp add: spread_funpow_compute_smallest_r)
  also have "\<dots> = Min ((\<lambda>l. Min ((\<lambda>j. radius (s ! j)) ` window_run s l)) ` ?S)"
  proof -
    have "radius (?f s ! l) = Min ((\<lambda>j. radius (s ! j)) ` window_run s l)" if "l \<in> ?S" for l
      using that S by (intro compute_smallest_r_radius) auto
    then show ?thesis by (simp cong: image_cong)
  qed
  also have "\<dots> = Min ((\<lambda>j. radius (s ! j)) ` (\<Union>l\<in>?S. window_run s l))"
  proof (rule Min_image_UN)
    show "finite ?S" using sub by (rule spread_funpow_finite)
    show "?S \<noteq> {}" using i by blast
    show "finite (window_run s l) \<and> window_run s l \<noteq> {}" for l
      using self_in_window_run [of l s] by auto
  qed
  also have "(\<Union>l\<in>?S. window_run s l) = (spread s ^^ Suc k) {i}"
    by (simp add: spread_def [of s ?S])
  finally show ?case .
qed

lemma compute_smallest_r_converges:
  "compute_smallest_r_within_delta_theta
     ((compute_smallest_r_within_delta_theta ^^ (length s - 1)) s) =
   (compute_smallest_r_within_delta_theta ^^ (length s - 1)) s"
proof (cases "s = []")
  case True
  then show ?thesis by simp
next
  case False
  let ?f = compute_smallest_r_within_delta_theta
  obtain n where n: "length s = Suc n"
    using False by (cases s) simp_all
  have "(?f ^^ Suc n) s = (?f ^^ n) s"
  proof (rule nth_equalityI)
    show "length ((?f ^^ Suc n) s) = length ((?f ^^ n) s)"
      by (simp only: funpow_compute_smallest_r_length)
    fix i
    assume "i < length ((?f ^^ Suc n) s)"
    then have i: "i < length s"
      by (simp only: funpow_compute_smallest_r_length)
    have "radius ((?f ^^ Suc n) s ! i) = radius ((?f ^^ n) s ! i)"
      using spread_funpow_stable [OF i] i
      by (simp only: funpow_compute_smallest_r_radius n) simp
    moreover have "theta ((?f ^^ Suc n) s ! i) = theta ((?f ^^ n) s ! i)"
      using i funpow_compute_smallest_r_map_theta [of "Suc n" s]
        funpow_compute_smallest_r_map_theta [of n s]
      by (metis funpow_compute_smallest_r_length nth_map)
    ultimately show "(?f ^^ Suc n) s ! i = (?f ^^ n) s ! i"
      by (intro radius_theta.equality) simp_all
  qed
  then show ?thesis
    by (simp add: n)
qed

lemma window_boundary_example_windows:
  "window_run window_boundary_example 0 = {0, 1}"
  "window_run window_boundary_example 1 = {0, 1}"
  "window_run window_boundary_example 2 = {2}"
proof -
  have s: "sorted (map theta window_boundary_example)"
    using delta_theta_pos by (simp add: window_boundary_example_def)
  have l: "length window_boundary_example = 3"
    by (simp add: window_boundary_example_def)
  have w: "window_run window_boundary_example i =
      {j. j < 3 \<and> \<bar>theta (window_boundary_example ! j) - theta (window_boundary_example ! i)\<bar>
             < delta_theta + 1 / 2 ^ 33}" if "i < 3" for i
    using that by (simp add: window_run_sorted [OF s] l)
  have three: "j < 3 \<longleftrightarrow> j = 0 \<or> j = 1 \<or> j = 2" for j :: nat
    by auto
  have "window_run window_boundary_example 0 =
      {j. j < 3 \<and> \<bar>theta (window_boundary_example ! j) - theta (window_boundary_example ! 0)\<bar>
             < delta_theta + 1 / 2 ^ 33}"
    by (rule w) simp
  also have "\<dots> = {0, 1}"
    using delta_theta_ge by (auto simp: three window_boundary_example_def)
  finally show "window_run window_boundary_example 0 = {0, 1}" .
  have "window_run window_boundary_example 1 =
      {j. j < 3 \<and> \<bar>theta (window_boundary_example ! j) - theta (window_boundary_example ! 1)\<bar>
             < delta_theta + 1 / 2 ^ 33}"
    by (rule w) simp
  also have "\<dots> = {0, 1}"
    using delta_theta_ge by (auto simp: three window_boundary_example_def)
  finally show "window_run window_boundary_example 1 = {0, 1}" .
  have "window_run window_boundary_example 2 =
      {j. j < 3 \<and> \<bar>theta (window_boundary_example ! j) - theta (window_boundary_example ! 2)\<bar>
             < delta_theta + 1 / 2 ^ 33}"
    by (rule w) simp
  also have "\<dots> = {2}"
    using delta_theta_ge by (auto simp: three window_boundary_example_def)
  finally show "window_run window_boundary_example 2 = {2}" .
qed

text \<open>
  C6, as stated, says that smoothing the output of the smoothing transform changes
  nothing. The second pass takes, for sample \<open>i\<close>, the minimum over the windows of the
  samples in the window of \<open>i\<close>, which can reach further than the window of \<open>i\<close>: on the
  sorted \<open>resmoothing_example\<close> the first pass gives the radii \<open>5, 1, 1\<close> and the second
  \<open>1, 1, 1\<close>, and so do two calls of \<open>getScanRT\<close> in a row.
\<close>

theorem resmoothing_counterexample:
  "sorted (map theta resmoothing_example) \<and>
   compute_smallest_r_within_delta_theta
     (compute_smallest_r_within_delta_theta resmoothing_example) \<noteq>
   compute_smallest_r_within_delta_theta resmoothing_example \<and>
   map radius (fst (getScanRT True (snd (getScanRT True (ScanMessage_rt resmoothing_example)))))
     \<noteq> map radius (fst (getScanRT True (ScanMessage_rt resmoothing_example)))"
proof -
  have "compute_smallest_r_within_delta_theta
     (compute_smallest_r_within_delta_theta resmoothing_example) \<noteq>
   compute_smallest_r_within_delta_theta resmoothing_example"
    by (subst resmoothing_example_twice, subst resmoothing_example_once) simp
  moreover have "fst (getScanRT True (ScanMessage_rt resmoothing_example)) =
      compute_smallest_r_within_delta_theta resmoothing_example"
    using sorted_resmoothing_example
    by (simp add: getScanRT_fst derive_rt_if_empty_def sort_if_needed_def ScanMessage_rt_def
        thetaAscendingSortScanRT_def sort_key_id_if_sorted)
  moreover have "map radius (compute_smallest_r_within_delta_theta
     (compute_smallest_r_within_delta_theta resmoothing_example)) \<noteq>
     map radius (compute_smallest_r_within_delta_theta resmoothing_example)"
    by (subst resmoothing_example_twice, subst resmoothing_example_once) simp
  ultimately show ?thesis
    by (simp only: repeated_getScanRT sorted_resmoothing_example) simp
qed

text \<open>
  C6, amended. Smoothing the output of the smoothing transform keeps the length and the
  theta of every sample and never raises a radius; so a repeated \<open>getScanRT\<close> never
  returns a larger radius than the call before it. It changes nothing when the windows
  of the sequence are closed (the window of every sample in the window of \<open>i\<close> lies
  within the window of \<open>i\<close>). In general further passes can lower radii, and the
  sequence is a fixed point of the transform after at most \<open>length s - 1\<close> passes.
\<close>

theorem resmoothing_lowers_until_fixed:
  "length (compute_smallest_r_within_delta_theta (compute_smallest_r_within_delta_theta s)) =
     length s
   \<and> (\<forall>i < length s.
        radius (compute_smallest_r_within_delta_theta
                  (compute_smallest_r_within_delta_theta s) ! i)
          \<le> radius (compute_smallest_r_within_delta_theta s ! i) \<and>
        theta (compute_smallest_r_within_delta_theta
                 (compute_smallest_r_within_delta_theta s) ! i) = theta (s ! i))
   \<and> (\<forall>i < length (fst (getScanRT b m)).
        radius (fst (getScanRT b (snd (getScanRT b m))) ! i) \<le> radius (fst (getScanRT b m) ! i))
   \<and> ((\<forall>i < length s. \<forall>j \<in> window_run s i. window_run s j \<subseteq> window_run s i) \<longrightarrow>
        compute_smallest_r_within_delta_theta (compute_smallest_r_within_delta_theta s) =
        compute_smallest_r_within_delta_theta s)
   \<and> compute_smallest_r_within_delta_theta
        ((compute_smallest_r_within_delta_theta ^^ (length s - 1)) s) =
      (compute_smallest_r_within_delta_theta ^^ (length s - 1)) s"
proof (intro conjI allI impI)
  let ?f = compute_smallest_r_within_delta_theta
  show "length (?f (?f s)) = length s"
    by (simp add: compute_smallest_r_length)
  show "radius (?f (?f s) ! i) \<le> radius (?f s ! i)" if "i < length s" for i
    using that by (intro compute_smallest_r_le) (simp add: compute_smallest_r_length)
  show "theta (?f (?f s) ! i) = theta (s ! i)" if "i < length s" for i
    using that by (simp add: compute_smallest_r_theta compute_smallest_r_length)
  show "radius (fst (getScanRT b (snd (getScanRT b m))) ! i) \<le> radius (fst (getScanRT b m) ! i)"
    if "i < length (fst (getScanRT b m))" for i
    using that by (simp add: repeated_getScanRT compute_smallest_r_le)
  show "?f (?f s) = ?f s"
    if "\<forall>i < length s. \<forall>j \<in> window_run s i. window_run s j \<subseteq> window_run s i"
    using that by (rule compute_smallest_r_closed_windows)
  show "?f ((?f ^^ (length s - 1)) s) = (?f ^^ (length s - 1)) s"
    by (rule compute_smallest_r_converges)
qed

theorem resmoothing_lowers_until_fixed_witness:
  "window_run window_boundary_example 0 = {0, 1} \<and>
   window_run window_boundary_example 1 = {0, 1} \<and>
   window_run window_boundary_example 2 = {2} \<and>
   compute_smallest_r_within_delta_theta
     (compute_smallest_r_within_delta_theta window_boundary_example) =
   compute_smallest_r_within_delta_theta window_boundary_example \<and>
   map radius (compute_smallest_r_within_delta_theta
     (compute_smallest_r_within_delta_theta window_boundary_example)) = [1, 1, 5]"
proof -
  note w = window_boundary_example_windows
  have l: "length window_boundary_example = 3"
    by (simp add: window_boundary_example_def)
  have three: "j < 3 \<longleftrightarrow> j = 0 \<or> j = 1 \<or> j = 2" for j :: nat
    by auto
  have closed: "\<forall>i < length window_boundary_example.
      \<forall>j \<in> window_run window_boundary_example i.
        window_run window_boundary_example j \<subseteq> window_run window_boundary_example i"
    by (auto simp: l three w simp del: One_nat_def)
  note t = resmoothing_lowers_until_fixed [of window_boundary_example]
  from t have "(\<forall>i < length window_boundary_example.
      \<forall>j \<in> window_run window_boundary_example i.
        window_run window_boundary_example j \<subseteq> window_run window_boundary_example i) \<longrightarrow>
      compute_smallest_r_within_delta_theta
        (compute_smallest_r_within_delta_theta window_boundary_example) =
      compute_smallest_r_within_delta_theta window_boundary_example"
    by (rule conjunct2 [THEN conjunct2, THEN conjunct2, THEN conjunct1])
  with closed have e: "compute_smallest_r_within_delta_theta
        (compute_smallest_r_within_delta_theta window_boundary_example) =
      compute_smallest_r_within_delta_theta window_boundary_example"
    by (rule rev_mp)
  have "map radius (compute_smallest_r_within_delta_theta
     (compute_smallest_r_within_delta_theta window_boundary_example)) = [1, 1, 5]"
    by (subst e) (simp add: window_boundary_example_smoothed)
  with w e show ?thesis by simp
qed

end
